theory Spec2Isabelle
  imports Main "HOL-Library.Sublist"
begin

section \<open>Python values and exceptions\<close>

text \<open>
  The operations of \<^verbatim>\<open>src/db/db_manager.py\<close> take and return Python dictionaries.
  A value is \<^verbatim>\<open>None\<close>, a \<^verbatim>\<open>str\<close>, a \<^verbatim>\<open>bool\<close>, an \<^verbatim>\<open>int\<close> or a list; a dictionary is
  an association list in insertion order, read by its first entry for a key. A string is a
  list of characters.
\<close>

datatype pyval = PNone | PStr string | PBool bool | PInt int | PList "pyval list"

type_synonym py_dict = "(string \<times> pyval) list"

text \<open>
  The exceptions the module can meet. \<open>Sqlite3Error\<close> stands for every subclass of
  \<^verbatim>\<open>sqlite3.Error\<close> (IntegrityError, ProgrammingError, OperationalError): it is what
  \<^verbatim>\<open>except sqlite3.Error\<close> catches. The others are not caught anywhere in the module.
\<close>

datatype error = KeyError | TypeError | AttributeError | OverflowError | Sqlite3Error

text \<open>Sequencing of steps that may raise: the first exception ends the sequence.\<close>

definition then_do :: "error + 'a \<Rightarrow> ('a \<Rightarrow> error + 'b) \<Rightarrow> error + 'b" where
  "then_do r f = (case r of Inl e \<Rightarrow> Inl e | Inr x \<Rightarrow> f x)"

text \<open>\<^verbatim>\<open>d[k]\<close>, \<^verbatim>\<open>d.get(k, default)\<close> and \<^verbatim>\<open>d[k] = v\<close>.\<close>

definition py_getitem :: "py_dict \<Rightarrow> string \<Rightarrow> error + pyval" where
  "py_getitem d k = (case map_of d k of None \<Rightarrow> Inl KeyError | Some v \<Rightarrow> Inr v)"

definition py_get :: "py_dict \<Rightarrow> string \<Rightarrow> pyval \<Rightarrow> pyval" where
  "py_get d k dflt = (case map_of d k of None \<Rightarrow> dflt | Some v \<Rightarrow> v)"

definition py_setitem :: "py_dict \<Rightarrow> string \<Rightarrow> pyval \<Rightarrow> py_dict" where
  "py_setitem d k v =
     (if k \<in> fst ` set d then map (\<lambda>(k', v'). (k', if k' = k then v else v')) d
      else d @ [(k, v)])"

subsection \<open>Joining and splitting the authors\<close>

text \<open>\<^verbatim>\<open>','.join(xs)\<close> on a list of strings.\<close>

fun join_comma :: "string list \<Rightarrow> string" where
  "join_comma [] = []"
| "join_comma [x] = x"
| "join_comma (x # y # ys) = x @ CHR '','' # join_comma (y # ys)"

text \<open>The items of a list, when every one of them is a \<^verbatim>\<open>str\<close>; \<^verbatim>\<open>join\<close> raises TypeError
  on any other item.\<close>

fun str_items :: "pyval list \<Rightarrow> error + string list" where
  "str_items [] = Inr []"
| "str_items (PStr s # vs) = then_do (str_items vs) (\<lambda>ss. Inr (s # ss))"
| "str_items (v # vs) = Inl TypeError"

text \<open>
  \<^verbatim>\<open>','.join(v)\<close> on any value: a list is joined item by item, a \<^verbatim>\<open>str\<close> is iterated
  character by character, and \<^verbatim>\<open>None\<close>, a \<^verbatim>\<open>bool\<close> and an \<^verbatim>\<open>int\<close> are not iterable.
\<close>

fun py_join :: "pyval \<Rightarrow> error + string" where
  "py_join (PList vs) = then_do (str_items vs) (\<lambda>ss. Inr (join_comma ss))"
| "py_join (PStr s) = Inr (join_comma (map (\<lambda>c. [c]) s))"
| "py_join v = Inl TypeError"

text \<open>\<^verbatim>\<open>s.split(',')\<close>: the result is never empty, \<^verbatim>\<open>''.split(',')\<close> is \<^verbatim>\<open>['']\<close>.\<close>

fun split_comma :: "string \<Rightarrow> string list" where
  "split_comma [] = [[]]"
| "split_comma (c # cs) =
     (if c = CHR '','' then [] # split_comma cs
      else (c # hd (split_comma cs)) # tl (split_comma cs))"

text \<open>\<^verbatim>\<open>v.split(',')\<close> on any value: only a \<^verbatim>\<open>str\<close> has the method.\<close>

fun py_split :: "pyval \<Rightarrow> error + pyval" where
  "py_split (PStr s) = Inr (PList (map PStr (split_comma s)))"
| "py_split v = Inl AttributeError"

section \<open>The storage engine\<close>

text \<open>
  What SQLite stores in a cell: NULL, a text or an integer. A row of \<^verbatim>\<open>papers\<close> is the list
  of its cells with their column names, in the order of the schema.
\<close>

datatype sqlval = SNull | SText string | SInt int

type_synonym row = "(string \<times> sqlval) list"

definition cell :: "row \<Rightarrow> string \<Rightarrow> sqlval" where
  "cell r c = (case map_of r c of None \<Rightarrow> SNull | Some v \<Rightarrow> v)"

text \<open>
  Binding a Python value to a \<^verbatim>\<open>?\<close> of a statement. A list is refused with a
  \<^verbatim>\<open>sqlite3.ProgrammingError\<close>; an \<^verbatim>\<open>int\<close> beyond 64 bits raises OverflowError, which is
  not an \<^verbatim>\<open>sqlite3.Error\<close>. The parameters are bound in order.
\<close>

fun bind :: "pyval \<Rightarrow> error + sqlval" where
  "bind PNone = Inr SNull"
| "bind (PStr s) = Inr (SText s)"
| "bind (PBool b) = Inr (SInt (if b then 1 else 0))"
| "bind (PInt i) =
     (if - (2 ^ 63) \<le> i \<and> i < 2 ^ 63 then Inr (SInt i) else Inl OverflowError)"
| "bind (PList vs) = Inl Sqlite3Error"

fun bind_all :: "pyval list \<Rightarrow> error + sqlval list" where
  "bind_all [] = Inr []"
| "bind_all (v # vs) =
     then_do (bind v) (\<lambda>x. then_do (bind_all vs) (\<lambda>xs. Inr (x # xs)))"

text \<open>What the cursor hands back for a cell.\<close>

fun sql_to_py :: "sqlval \<Rightarrow> pyval" where
  "sql_to_py SNull = PNone"
| "sql_to_py (SText s) = PStr s"
| "sql_to_py (SInt i) = PInt i"

subsection \<open>Column affinity\<close>

text \<open>An integer in decimal, as a column of TEXT affinity stores it.\<close>

function show_nat :: "nat \<Rightarrow> string" where
  "show_nat n =
     (if n < 10 then [''0123456789'' ! n]
      else show_nat (n div 10) @ [''0123456789'' ! (n mod 10)])"
  by pat_completeness auto
termination
  by (relation "measure (\<lambda>n. n)") auto

definition show_int :: "int \<Rightarrow> string" where
  "show_int i = (if i < 0 then CHR ''-'' # show_nat (nat (- i)) else show_nat (nat i))"

fun text_affinity :: "sqlval \<Rightarrow> sqlval" where
  "text_affinity (SInt i) = SText (show_int i)"
| "text_affinity v = v"

text \<open>
  \<^verbatim>\<open>is_paywalled BOOLEAN\<close> has NUMERIC affinity: NULL and integers are kept, and a text is
  stored as the number it spells when it spells one. What the engine makes of a text is
  the parameter \<open>nt\<close>.
\<close>

fun numeric_affinity :: "(string \<Rightarrow> sqlval) \<Rightarrow> sqlval \<Rightarrow> sqlval" where
  "numeric_affinity nt (SText s) = nt s"
| "numeric_affinity nt v = v"

definition affinity :: "(string \<Rightarrow> sqlval) \<Rightarrow> string \<Rightarrow> sqlval \<Rightarrow> sqlval" where
  "affinity nt c v = (if c = ''is_paywalled'' then numeric_affinity nt v else text_affinity v)"

subsection \<open>The schema and the stored state\<close>

definition columns :: "string list" where
  "columns = [''id'', ''title'', ''authors'', ''abstract'', ''source'',
     ''publication_date'', ''access_date'', ''pdf_path'', ''bibtex_path'',
     ''endnote_path'', ''is_paywalled'', ''summary'', ''implications'',
     ''topic_category'', ''error_log'']"

definition not_null_columns :: "string list" where
  "not_null_columns = [''title'', ''authors'', ''source'', ''publication_date'', ''access_date'']"

text \<open>
  The three tables, and the counter of \<^verbatim>\<open>AUTOINCREMENT\<close> (the table \<^verbatim>\<open>sqlite_sequence\<close>).
  Tag ids are natural numbers; the 64-bit bound of a rowid is not modelled.
\<close>

record store =
  papers :: "row list"
  tags :: "(nat \<times> string) list"
  tag_seq :: nat
  paper_tags :: "(string \<times> nat) list"

text \<open>
  The world an operation runs in: the committed database file, and the number of
  connections that were opened by \<^verbatim>\<open>sqlite3.connect\<close> and not yet closed by \<^verbatim>\<open>conn.close()\<close>.
\<close>

record world =
  disk :: store
  open_conns :: nat

definition connect :: "world \<Rightarrow> world" where
  "connect w = w\<lparr>open_conns := Suc (open_conns w)\<rparr>"

definition close :: "world \<Rightarrow> world" where
  "close w = w\<lparr>open_conns := open_conns w - 1\<rparr>"

text \<open>
  What an operation gets from outside the program: the result of
  \<^verbatim>\<open>datetime.now().isoformat()\<close>; the engine call of this operation (\<^verbatim>\<open>execute\<close> and
  \<^verbatim>\<open>commit\<close> calls, counted from 0) at which the engine fails with an
  \<^verbatim>\<open>sqlite3.OperationalError\<close> such as a locked database or a full disk, if any; and the
  engine's reading of a text stored in a NUMERIC column. Closing a connection is taken
  to succeed.

  The last three fields bear on add_tags, whose handler is there to keep every engine
  error from the caller: whether \<^verbatim>\<open>sqlite3.connect\<close> fails, whether \<^verbatim>\<open>conn.cursor()\<close> fails, and
  whether \<^verbatim>\<open>conn.rollback()\<close> fails, each with an \<^verbatim>\<open>sqlite3.Error\<close>. The other operations are
  modelled on a connection that opens.
\<close>

record env =
  now :: string
  fault :: "nat option"
  numeric_text :: "string \<Rightarrow> sqlval"
  connect_fault :: bool
  cursor_fault :: bool
  rollback_fault :: bool

definition step :: "env \<Rightarrow> nat \<Rightarrow> 'a \<Rightarrow> error + 'a" where
  "step e k x = (if fault e = Some k then Inl Sqlite3Error else Inr x)"

text \<open>\<^verbatim>\<open>c.execute(sql, params)\<close>: the parameters are bound, then the statement runs.\<close>

definition execute :: "env \<Rightarrow> nat \<Rightarrow> pyval list \<Rightarrow> (sqlval list \<Rightarrow> error + 'a) \<Rightarrow> error + 'a" where
  "execute e k params stmt =
     then_do (bind_all params) (\<lambda>vals. then_do (step e k vals) stmt)"

text \<open>\<^verbatim>\<open>conn.commit()\<close> writes the transaction to the file. A connection that is closed
  without a commit, or rolled back, leaves the file as it was.\<close>

definition commit :: "env \<Rightarrow> nat \<Rightarrow> store \<Rightarrow> world \<Rightarrow> error + world" where
  "commit e k tx w = then_do (step e k tx) (\<lambda>tx'. Inr (w\<lparr>disk := tx'\<rparr>))"

section \<open>The operations\<close>

subsection \<open>add_paper\<close>

text \<open>
  The parameter tuple of the INSERT, built left to right: a missing required key raises
  KeyError, authors that cannot be joined raise TypeError, and the optional fields
  default to \<^verbatim>\<open>None\<close> (\<^verbatim>\<open>is_paywalled\<close> to \<^verbatim>\<open>False\<close>).
\<close>

definition paper_params :: "string \<Rightarrow> py_dict \<Rightarrow> error + pyval list" where
  "paper_params access_date paper =
     then_do (py_getitem paper ''id'') (\<lambda>pid.
     then_do (py_getitem paper ''title'') (\<lambda>title.
     then_do (py_getitem paper ''authors'') (\<lambda>authors.
     then_do (py_join authors) (\<lambda>joined.
     then_do (py_getitem paper ''source'') (\<lambda>source.
     then_do (py_getitem paper ''publication_date'') (\<lambda>publication_date.
     Inr [pid, title, PStr joined, py_get paper ''abstract'' PNone, source,
          publication_date, PStr access_date,
          py_get paper ''pdf_path'' PNone,
          py_get paper ''bibtex_path'' PNone,
          py_get paper ''endnote_path'' PNone,
          py_get paper ''is_paywalled'' (PBool False),
          py_get paper ''summary'' PNone,
          py_get paper ''implications'' PNone,
          py_get paper ''topic_category'' PNone]))))))"

text \<open>The column list of the INSERT: every column of the table but \<^verbatim>\<open>error_log\<close>.\<close>

definition insert_columns :: "string list" where
  "insert_columns = [''id'', ''title'', ''authors'', ''abstract'', ''source'',
     ''publication_date'', ''access_date'', ''pdf_path'', ''bibtex_path'',
     ''endnote_path'', ''is_paywalled'', ''summary'', ''implications'',
     ''topic_category'']"

text \<open>The row the INSERT makes: each value under its column's affinity, and NULL in the
  column that the statement does not name.\<close>

definition new_row :: "(string \<Rightarrow> sqlval) \<Rightarrow> sqlval list \<Rightarrow> row" where
  "new_row nt vals =
     map (\<lambda>(c, v). (c, affinity nt c v)) (zip insert_columns vals) @ [(''error_log'', SNull)]"

text \<open>
  The constraints of \<^verbatim>\<open>papers\<close>: the NOT NULL columns, and the primary key. \<^verbatim>\<open>id TEXT
  PRIMARY KEY\<close> is not a rowid alias, so SQLite admits NULL in it, and NULLs never
  collide.
\<close>

definition not_null_ok :: "row \<Rightarrow> bool" where
  "not_null_ok r = (\<forall>c \<in> set not_null_columns. cell r c \<noteq> SNull)"

definition primary_key_ok :: "row \<Rightarrow> row list \<Rightarrow> bool" where
  "primary_key_ok r rows =
     (cell r ''id'' = SNull \<or> cell r ''id'' \<notin> set (map (\<lambda>r'. cell r' ''id'') rows))"

definition insert_paper :: "(string \<Rightarrow> sqlval) \<Rightarrow> store \<Rightarrow> sqlval list \<Rightarrow> error + store" where
  "insert_paper nt s vals =
     (let r = new_row nt vals in
      if not_null_ok r \<and> primary_key_ok r (papers s)
      then Inr (s\<lparr>papers := papers s @ [r]\<rparr>)
      else Inl Sqlite3Error)"

text \<open>
  \<^verbatim>\<open>try: connect, execute, commit, return True; except sqlite3.Error: return False;
  finally: conn.close()\<close>. The result is the returned value or the exception that leaves
  the function, with the world afterwards.
\<close>

definition add_paper :: "env \<Rightarrow> py_dict \<Rightarrow> world \<Rightarrow> (error + bool) \<times> world" where
  "add_paper e paper w =
     (let w1 = connect w;
          r = then_do (paper_params (now e) paper) (\<lambda>params.
              then_do (execute e 0 params (insert_paper (numeric_text e) (disk w1))) (\<lambda>tx.
              commit e 1 tx w1))
      in case r of
           Inr w2 \<Rightarrow> (Inr True, close w2)
         | Inl Sqlite3Error \<Rightarrow> (Inr False, close w1)
         | Inl err \<Rightarrow> (Inl err, close w1))"

subsection \<open>get_paper\<close>

text \<open>\<^verbatim>\<open>SELECT * FROM papers WHERE id = ?\<close> and \<^verbatim>\<open>fetchone()\<close>.\<close>

definition select_paper :: "string \<Rightarrow> store \<Rightarrow> row option" where
  "select_paper paper_id s = find (\<lambda>r. cell r ''id'' = SText paper_id) (papers s)"

text \<open>
  \<^verbatim>\<open>SELECT t.name FROM tags t JOIN paper_tags pt ON t.id = pt.tag_id WHERE pt.paper_id = ?\<close>.
  The order of the names is the engine's; here it is that of the tag ids.
\<close>

definition select_tags :: "string \<Rightarrow> store \<Rightarrow> string list" where
  "select_tags paper_id s =
     map snd (filter (\<lambda>(i, n). (paper_id, i) \<in> set (paper_tags s)) (tags s))"

text \<open>\<^verbatim>\<open>dict(zip(columns, row))\<close>, with the column names of the cursor's description.\<close>

definition row_dict :: "string list \<Rightarrow> row \<Rightarrow> py_dict" where
  "row_dict description r = zip description (map (sql_to_py \<circ> snd) r)"

text \<open>
  The function has no \<^verbatim>\<open>try\<close> and never calls \<^verbatim>\<open>conn.close()\<close>: an engine failure leaves
  it as an exception, and the connection is still open on every path.
\<close>

definition get_paper :: "env \<Rightarrow> string \<Rightarrow> world \<Rightarrow> (error + py_dict option) \<times> world" where
  "get_paper e paper_id w =
     (let w1 = connect w;
          r = then_do (step e 0 (select_paper paper_id (disk w1))) (\<lambda>paper.
              case paper of
                None \<Rightarrow> Inr None
              | Some p \<Rightarrow>
                  (let paper_dict = row_dict columns p in
                   then_do (py_getitem paper_dict ''authors'') (\<lambda>a.
                   then_do (py_split a) (\<lambda>authors.
                   then_do (step e 1 (select_tags paper_id (disk w1))) (\<lambda>names.
                   Inr (Some (py_setitem (py_setitem paper_dict ''authors'' authors)
                                ''tags'' (PList (map PStr names)))))))))
      in (r, w1))"

subsection \<open>search_papers\<close>

text \<open>SQLite's LIKE folds the case of the 26 ASCII letters only.\<close>

definition lower :: "char \<Rightarrow> char" where
  "lower c =
     (case map_of (zip ''ABCDEFGHIJKLMNOPQRSTUVWXYZ'' ''abcdefghijklmnopqrstuvwxyz'') c of
        None \<Rightarrow> c
      | Some l \<Rightarrow> l)"

text \<open>
  \<open>like pattern s\<close> is the matching of \<^verbatim>\<open>s LIKE pattern\<close>, on the characters that the engine
  reads of the pattern and of the text (\<open>c_string\<close> below; the bound on the length of a
  pattern is checked by the SELECT, \<open>select_papers\<close>): \<^verbatim>\<open>%\<close> stands for any run of
  characters, \<^verbatim>\<open>_\<close> for any one character, and every other character for itself up to case.
  No escape character is declared by the statement.
\<close>

fun like :: "string \<Rightarrow> string \<Rightarrow> bool" where
  "like [] s = (s = [])"
| "like (p # ps) [] = (p = CHR ''%'' \<and> like ps [])"
| "like (p # ps) (c # cs) =
     (if p = CHR ''%'' then like ps (c # cs) \<or> like (p # ps) cs
      else (p = CHR ''_'' \<or> lower p = lower c) \<and> like ps cs)"

text \<open>
  The engine reads the pattern and the text of a LIKE as C strings: each ends at its
  first NUL character, if it has one.
\<close>

definition c_string :: "string \<Rightarrow> string" where
  "c_string s = takeWhile (\<lambda>c. c \<noteq> CHR 0x00) s"

text \<open>
  A pattern of more than 50000 bytes is refused with an \<^verbatim>\<open>sqlite3.OperationalError\<close> (LIKE
  or GLOB pattern too complex). The bytes are those of UTF-8: one for an ASCII
  character, two for the other characters of a \<open>string\<close>.
\<close>

definition utf8_length :: "string \<Rightarrow> nat" where
  "utf8_length s = length s + length (filter (\<lambda>c. 128 \<le> (of_char c :: nat)) s)"

definition like_pattern_ok :: "string \<Rightarrow> bool" where
  "like_pattern_ok pattern = (utf8_length pattern \<le> 50000)"

text \<open>The operators of the WHERE clause on cells, in SQL's three-valued logic: \<open>None\<close> is
  NULL. An integer sorts before every text and equals none.\<close>

fun sql_like :: "sqlval \<Rightarrow> string \<Rightarrow> bool option" where
  "sql_like SNull pattern = None"
| "sql_like (SText s) pattern = Some (like (c_string pattern) (c_string s))"
| "sql_like (SInt i) pattern = Some (like (c_string pattern) (show_int i))"

fun sql_or :: "bool option \<Rightarrow> bool option \<Rightarrow> bool option" where
  "sql_or (Some True) b = Some True"
| "sql_or a (Some True) = Some True"
| "sql_or (Some False) (Some False) = Some False"
| "sql_or a b = None"

fun sql_and :: "bool option \<Rightarrow> bool option \<Rightarrow> bool option" where
  "sql_and (Some False) b = Some False"
| "sql_and a (Some False) = Some False"
| "sql_and (Some True) (Some True) = Some True"
| "sql_and a b = None"

fun sql_eq :: "sqlval \<Rightarrow> string \<Rightarrow> bool option" where
  "sql_eq SNull x = None"
| "sql_eq (SText s) x = Some (s = x)"
| "sql_eq (SInt i) x = Some False"

text \<open>The order of texts under the BINARY collation: character by character.\<close>

fun str_le :: "string \<Rightarrow> string \<Rightarrow> bool" where
  "str_le [] t = True"
| "str_le (c # cs) [] = False"
| "str_le (c # cs) (d # ds) = ((of_char c :: nat) < of_char d \<or> (c = d \<and> str_le cs ds))"

fun sql_ge :: "sqlval \<Rightarrow> string \<Rightarrow> bool option" where
  "sql_ge SNull x = None"
| "sql_ge (SText s) x = Some (str_le x s)"
| "sql_ge (SInt i) x = Some False"

text \<open>
  The WHERE clause as the function assembles it: the two LIKEs on \<^verbatim>\<open>%query%\<close>, and one more
  conjunct for each of \<^verbatim>\<open>source\<close> and \<^verbatim>\<open>from_date\<close> that is truthy (given and not empty).
\<close>

definition where_clause :: "string \<Rightarrow> string option \<Rightarrow> string option \<Rightarrow> row \<Rightarrow> bool option" where
  "where_clause query source from_date r =
     (let pattern = ''%'' @ query @ ''%'';
          sql = sql_or (sql_like (cell r ''title'') pattern) (sql_like (cell r ''abstract'') pattern);
          sql = (case source of
                   Some s \<Rightarrow> if s \<noteq> [] then sql_and sql (sql_eq (cell r ''source'') s) else sql
                 | None \<Rightarrow> sql);
          sql = (case from_date of
                   Some d \<Rightarrow> if d \<noteq> [] then sql_and sql (sql_ge (cell r ''publication_date'') d) else sql
                 | None \<Rightarrow> sql)
      in sql)"

text \<open>An optional argument counts as given when it is neither \<^verbatim>\<open>None\<close> nor empty.\<close>

definition given :: "string option \<Rightarrow> string option" where
  "given a = (case a of None \<Rightarrow> None | Some s \<Rightarrow> if s = [] then None else Some s)"

text \<open>
  The rows on which the engine evaluates the LIKE: it walks \<^verbatim>\<open>papers\<close> by the index on
  \<^verbatim>\<open>source\<close> when a source is given, else by the index on \<^verbatim>\<open>publication_date\<close> when a bound
  is given, else row by row, and evaluates the rest of the WHERE clause on each row it
  walks.
\<close>

definition scanned :: "string option \<Rightarrow> string option \<Rightarrow> store \<Rightarrow> row list" where
  "scanned source from_date s =
     (case given source of
        Some src \<Rightarrow> filter (\<lambda>r. sql_eq (cell r ''source'') src = Some True) (papers s)
      | None \<Rightarrow>
          (case given from_date of
             Some d \<Rightarrow> filter (\<lambda>r. sql_ge (cell r ''publication_date'') d = Some True) (papers s)
           | None \<Rightarrow> papers s))"

text \<open>
  The SELECT of search_papers: it fails when a LIKE is evaluated on a pattern that is
  too long, and else gives the rows on which the WHERE clause is true. The order of the
  rows is the engine's; here it is that of their insertion.
\<close>

definition select_papers ::
  "string \<Rightarrow> string option \<Rightarrow> string option \<Rightarrow> store \<Rightarrow> error + row list" where
  "select_papers query source from_date s =
     (if scanned source from_date s \<noteq> [] \<and> \<not> like_pattern_ok (''%'' @ query @ ''%'')
      then Inl Sqlite3Error
      else Inr (filter (\<lambda>r. where_clause query source from_date r = Some True) (papers s)))"

text \<open>The tags query with the value of \<^verbatim>\<open>paper_dict['id']\<close> as its parameter.\<close>

fun select_tags_of :: "pyval \<Rightarrow> store \<Rightarrow> error + string list" where
  "select_tags_of (PStr pid) s = Inr (select_tags pid s)"
| "select_tags_of PNone s = Inr []"
| "select_tags_of (PBool b) s = Inr (select_tags (if b then ''1'' else ''0'') s)"
| "select_tags_of (PInt i) s = then_do (bind (PInt i)) (\<lambda>v. Inr (select_tags (show_int i) s))"
| "select_tags_of (PList vs) s = Inl Sqlite3Error"

text \<open>
  The loop over the fetched rows. It reads the column names from \<^verbatim>\<open>c.description\<close> at each
  turn, on the cursor that also runs the tags query: from the second row on the
  description is that of the tags query, whose only column is \<^verbatim>\<open>name\<close>. \<open>k\<close> counts the
  engine calls.
\<close>

fun search_loop :: "env \<Rightarrow> nat \<Rightarrow> string list \<Rightarrow> store \<Rightarrow> row list \<Rightarrow> error + py_dict list" where
  "search_loop e k description s [] = Inr []"
| "search_loop e k description s (row # rest) =
     (let paper_dict = row_dict description row in
      then_do (py_getitem paper_dict ''authors'') (\<lambda>a.
      then_do (py_split a) (\<lambda>authors.
      then_do (py_getitem paper_dict ''id'') (\<lambda>pid.
      then_do (select_tags_of pid s) (\<lambda>names.
      then_do (step e k names) (\<lambda>names.
      then_do (search_loop e (Suc k) [''name''] s rest) (\<lambda>found.
      Inr (py_setitem (py_setitem paper_dict ''authors'' authors)
             ''tags'' (PList (map PStr names)) # found))))))))"

text \<open>The function has no \<^verbatim>\<open>try\<close>: \<^verbatim>\<open>conn.close()\<close> is reached only when nothing was
  raised.\<close>

definition search_papers ::
  "env \<Rightarrow> string \<Rightarrow> string option \<Rightarrow> string option \<Rightarrow> world \<Rightarrow> (error + py_dict list) \<times> world" where
  "search_papers e query source from_date w =
     (let w1 = connect w;
          r = then_do (step e 0 (select_papers query source from_date (disk w1))) (\<lambda>selected.
              then_do selected (\<lambda>rows.
              search_loop e 1 columns (disk w1) rows))
      in case r of
           Inr found \<Rightarrow> (Inr found, close w1)
         | Inl err \<Rightarrow> (Inl err, w1))"

subsection \<open>add_tags\<close>

text \<open>
  \<^verbatim>\<open>INSERT OR IGNORE INTO tags (name) VALUES (?)\<close>. The new id is one more than the largest
  id the table ever held; the counter moves on even when the row is ignored because
  the name is already there.
\<close>

definition insert_tag :: "string \<Rightarrow> store \<Rightarrow> store" where
  "insert_tag name s =
     (let new_id = Suc (fold max (map fst (tags s)) (tag_seq s)) in
      if name \<in> set (map snd (tags s)) then s\<lparr>tag_seq := new_id\<rparr>
      else s\<lparr>tags := tags s @ [(new_id, name)], tag_seq := new_id\<rparr>)"

text \<open>\<^verbatim>\<open>SELECT id FROM tags WHERE name = ?\<close> and \<^verbatim>\<open>fetchone()\<close>.\<close>

definition select_tag_id :: "string \<Rightarrow> store \<Rightarrow> nat option" where
  "select_tag_id name s = map_option fst (find (\<lambda>(i, n). n = name) (tags s))"

text \<open>\<^verbatim>\<open>INSERT OR IGNORE INTO paper_tags (paper_id, tag_id) VALUES (?, ?)\<close>.\<close>

definition insert_paper_tag :: "string \<Rightarrow> nat \<Rightarrow> store \<Rightarrow> store" where
  "insert_paper_tag paper_id tag_id s =
     (if (paper_id, tag_id) \<in> set (paper_tags s) then s
      else s\<lparr>paper_tags := paper_tags s @ [(paper_id, tag_id)]\<rparr>)"

text \<open>
  The loop over the tags, on the transaction \<open>tx\<close>; three engine calls a tag.
  \<^verbatim>\<open>c.fetchone()[0]\<close> raises TypeError when no row was found.
\<close>

fun add_tags_loop :: "env \<Rightarrow> nat \<Rightarrow> string \<Rightarrow> string list \<Rightarrow> store \<Rightarrow> error + store" where
  "add_tags_loop e k paper_id [] tx = Inr tx"
| "add_tags_loop e k paper_id (tag # rest) tx =
     then_do (step e k (insert_tag tag tx)) (\<lambda>tx1.
     then_do (step e (k + 1) (select_tag_id tag tx1)) (\<lambda>fetched.
     then_do (case fetched of None \<Rightarrow> Inl TypeError | Some i \<Rightarrow> Inr i) (\<lambda>tag_id.
     then_do (step e (k + 2) (insert_paper_tag paper_id tag_id tx1)) (\<lambda>tx2.
     add_tags_loop e (k + 3) paper_id rest tx2))))"

text \<open>
  \<^verbatim>\<open>conn = sqlite3.connect(...); c = conn.cursor(); try: the loop, commit; except
  sqlite3.Error: rollback; finally: conn.close()\<close>. The connection and the cursor are
  made before the \<^verbatim>\<open>try\<close>: an error of \<^verbatim>\<open>connect\<close> leaves the function with no connection
  open, an error of \<^verbatim>\<open>cursor\<close> leaves it with the connection open. An error of the
  rollback leaves the function from inside the handler, after the \<^verbatim>\<open>finally\<close> has closed
  the connection. A connection that is closed, with or without a rollback, leaves the
  file as it was at the last commit.
\<close>

definition add_tags :: "env \<Rightarrow> string \<Rightarrow> string list \<Rightarrow> world \<Rightarrow> (error + unit) \<times> world" where
  "add_tags e paper_id tag_names w =
     (if connect_fault e then (Inl Sqlite3Error, w)
      else
        (let w1 = connect w in
         if cursor_fault e then (Inl Sqlite3Error, w1)
         else
           (let r = then_do (add_tags_loop e 0 paper_id tag_names (disk w1)) (\<lambda>tx.
                    commit e (3 * length tag_names) tx w1)
            in case r of
                 Inr w2 \<Rightarrow> (Inr (), close w2)
               | Inl Sqlite3Error \<Rightarrow>
                   if rollback_fault e then (Inl Sqlite3Error, close w1) else (Inr (), close w1)
               | Inl err \<Rightarrow> (Inl err, close w1))))"

subsection \<open>update_paper\<close>

definition valid_fields :: "string list" where
  "valid_fields = [''title'', ''authors'', ''abstract'', ''pdf_path'', ''bibtex_path'',
     ''endnote_path'', ''is_paywalled'', ''summary'', ''implications'',
     ''topic_category'', ''error_log'']"

text \<open>\<^verbatim>\<open>value if field != 'authors' else ','.join(value)\<close>.\<close>

definition update_value :: "string \<Rightarrow> pyval \<Rightarrow> error + pyval" where
  "update_value field v =
     (if field \<noteq> ''authors'' then Inr v
      else then_do (py_join v) (\<lambda>joined. Inr (PStr joined)))"

text \<open>
  The loop over \<^verbatim>\<open>updates.items()\<close>: the fields of the allow-list with their values, the
  authors joined. The result pairs \<^verbatim>\<open>update_fields\<close> with \<^verbatim>\<open>values\<close>.
\<close>

fun update_assignments :: "py_dict \<Rightarrow> error + (string \<times> pyval) list" where
  "update_assignments [] = Inr []"
| "update_assignments ((field, v) # rest) =
     (if field \<in> set valid_fields then
        then_do (update_value field v) (\<lambda>v'.
        then_do (update_assignments rest) (\<lambda>assignments. Inr ((field, v') # assignments)))
      else update_assignments rest)"

text \<open>\<^verbatim>\<open>UPDATE papers SET f1 = ?, ... WHERE id = ?\<close>: the rows whose id is the given one get
  the new cells, under each column's affinity; a NULL in a NOT NULL column fails the
  statement and changes nothing.\<close>

definition set_cell :: "string \<Rightarrow> sqlval \<Rightarrow> row \<Rightarrow> row" where
  "set_cell c v r = map (\<lambda>(k, x). (k, if k = c then v else x)) r"

definition apply_set :: "(string \<Rightarrow> sqlval) \<Rightarrow> (string \<times> sqlval) list \<Rightarrow> row \<Rightarrow> row" where
  "apply_set nt assignments r = fold (\<lambda>(c, v). set_cell c (affinity nt c v)) assignments r"

definition update_papers ::
  "(string \<Rightarrow> sqlval) \<Rightarrow> string list \<Rightarrow> string \<Rightarrow> store \<Rightarrow> sqlval list \<Rightarrow> error + store" where
  "update_papers nt update_fields paper_id s vals =
     (let assignments = zip update_fields vals;
          hit = (\<lambda>r. cell r ''id'' = SText paper_id)
      in if \<forall>r \<in> set (filter hit (papers s)). not_null_ok (apply_set nt assignments r)
         then Inr (s\<lparr>papers := map (\<lambda>r. if hit r then apply_set nt assignments r else r) (papers s)\<rparr>)
         else Inl Sqlite3Error)"

text \<open>
  With no field of the allow-list the function returns False before it opens a
  connection. Otherwise: \<^verbatim>\<open>try: connect, execute, commit, return True; except
  sqlite3.Error: return False; finally: conn.close()\<close>.
\<close>

definition update_paper :: "env \<Rightarrow> string \<Rightarrow> py_dict \<Rightarrow> world \<Rightarrow> (error + bool) \<times> world" where
  "update_paper e paper_id updates w =
     (case update_assignments updates of
        Inl err \<Rightarrow> (Inl err, w)
      | Inr [] \<Rightarrow> (Inr False, w)
      | Inr assignments \<Rightarrow>
          (let w1 = connect w;
               r = then_do (execute e 0 (map snd assignments @ [PStr paper_id])
                              (update_papers (numeric_text e) (map fst assignments) paper_id (disk w1)))
                     (\<lambda>tx. commit e 1 tx w1)
           in case r of
                Inr w2 \<Rightarrow> (Inr True, close w2)
              | Inl Sqlite3Error \<Rightarrow> (Inr False, close w1)
              | Inl err \<Rightarrow> (Inl err, close w1)))"

section \<open>Well-formed input\<close>

text \<open>The keys that add_paper reads with \<^verbatim>\<open>paper[...]\<close>; the other fields are read with
  \<^verbatim>\<open>paper.get(...)\<close>.\<close>

definition required_fields :: "string list" where
  "required_fields = [''id'', ''title'', ''authors'', ''source'', ''publication_date'']"

text \<open>A value that the engine accepts as a parameter.\<close>

definition storable :: "pyval \<Rightarrow> bool" where
  "storable v = (case bind v of Inl err \<Rightarrow> False | Inr x \<Rightarrow> True)"

section \<open>The constraints of the tag tables\<close>

text \<open>
  What the schema declares for \<^verbatim>\<open>tags\<close> and \<^verbatim>\<open>paper_tags\<close>: the ids of the tags are a primary
  key, their names are UNIQUE, and the pair \<^verbatim>\<open>(paper_id, tag_id)\<close> is a primary key.
\<close>

definition tables_ok :: "store \<Rightarrow> bool" where
  "tables_ok s =
     (distinct (map fst (tags s)) \<and> distinct (map snd (tags s)) \<and> distinct (paper_tags s))"

text \<open>The paper carries the tag: the tag has a row, and its id is linked to the paper.\<close>

definition tagged :: "string \<Rightarrow> string \<Rightarrow> store \<Rightarrow> bool" where
  "tagged paper_id t s =
     (case select_tag_id t s of None \<Rightarrow> False | Some i \<Rightarrow> (paper_id, i) \<in> set (paper_tags s))"

section \<open>The search in words\<close>

text \<open>
  A text contains a query when the query occurs in it as a run of consecutive
  characters, up to the case of the ASCII letters.
\<close>

definition contains_ci :: "string \<Rightarrow> string \<Rightarrow> bool" where
  "contains_ci query s = sublist (map lower query) (map lower s)"

text \<open>
  The rows that a search selects, for a given test of a text: the test holds of the
  title or of the abstract, each read to its first NUL (a NULL passes no test, an
  integer is read as its decimal text); the source, when one is given, is equal; and the
  publication date, when a lower bound is given, is not before the bound in the order of
  strings.
\<close>

definition text_sat :: "(string \<Rightarrow> bool) \<Rightarrow> sqlval \<Rightarrow> bool" where
  "text_sat matches v =
     (case v of SNull \<Rightarrow> False | SText t \<Rightarrow> matches (c_string t) | SInt i \<Rightarrow> matches (show_int i))"

definition selected_by ::
  "(string \<Rightarrow> bool) \<Rightarrow> string option \<Rightarrow> string option \<Rightarrow> row \<Rightarrow> bool" where
  "selected_by matches source from_date r =
     ((text_sat matches (cell r ''title'') \<or> text_sat matches (cell r ''abstract'')) \<and>
      (case source of None \<Rightarrow> True | Some s \<Rightarrow> cell r ''source'' = SText s) \<and>
      (case from_date of
         None \<Rightarrow> True
       | Some d \<Rightarrow> (case cell r ''publication_date'' of SText p \<Rightarrow> str_le d p | _ \<Rightarrow> False)))"

text \<open>The record of a row as get_paper returns it: the cells under their column names,
  the authors split at the commas, and the names of the paper's tags.\<close>

definition paper_record :: "store \<Rightarrow> row \<Rightarrow> py_dict" where
  "paper_record s r =
     py_setitem
       (py_setitem (row_dict columns r) ''authors''
          (PList (map PStr (split_comma (case cell r ''authors'' of SText a \<Rightarrow> a | _ \<Rightarrow> [])))))
       ''tags''
       (PList (map PStr (case cell r ''id'' of SText pid \<Rightarrow> select_tags pid s | _ \<Rightarrow> [])))"

text \<open>
  What the schema makes of every stored row of \<^verbatim>\<open>papers\<close>: it has the columns of the table,
  the NOT NULL columns are not NULL, and under TEXT affinity no column but
  \<^verbatim>\<open>is_paywalled\<close> holds an integer.
\<close>

definition is_int :: "sqlval \<Rightarrow> bool" where
  "is_int v = (case v of SInt i \<Rightarrow> True | _ \<Rightarrow> False)"

definition row_ok :: "row \<Rightarrow> bool" where
  "row_ok r =
     (map fst r = columns \<and> not_null_ok r \<and>
      (\<forall>c \<in> set columns. c \<noteq> ''is_paywalled'' \<longrightarrow> \<not> is_int (cell r c)))"

section \<open>Example values\<close>

text \<open>A clock reading, an engine that never fails, an empty database and two papers.\<close>

definition example_env :: env where
  "example_env = \<lparr>now = ''2024-01-01T00:00:00'', fault = None, numeric_text = SText,
     connect_fault = False, cursor_fault = False, rollback_fault = False\<rparr>"

definition empty_world :: world where
  "empty_world = \<lparr>disk = \<lparr>papers = [], tags = [], tag_seq = 0, paper_tags = []\<rparr>, open_conns = 0\<rparr>"

definition paper_gnn :: py_dict where
  "paper_gnn = [(''id'', PStr ''p1''), (''title'', PStr ''Graph Neural Networks''),
     (''authors'', PList [PStr ''A'', PStr ''B'']), (''source'', PStr ''arxiv''),
     (''publication_date'', PStr ''2023-01-01''), (''error_log'', PStr ''boom'')]"

definition paper_axxb :: py_dict where
  "paper_axxb = [(''id'', PStr ''p2''), (''title'', PStr ''axxb''),
     (''authors'', PList []), (''source'', PStr ''acm''),
     (''publication_date'', PStr ''2023-06-01'')]"

text \<open>A database with two tags on a paper, and an engine that fails at its fifth call.\<close>

definition tagged_world :: world where
  "tagged_world = \<lparr>disk = \<lparr>papers = [], tags = [(1, ''x''), (2, ''y'')], tag_seq = 2,
     paper_tags = [(''p1'', 1), (''p1'', 2)]\<rparr>, open_conns = 0\<rparr>"

definition failing_env :: env where
  "failing_env = \<lparr>now = ''2024-01-01T00:00:00'', fault = Some 4, numeric_text = SText,
     connect_fault = False, cursor_fault = False, rollback_fault = False\<rparr>"

text \<open>A database file that cannot be opened, and an engine that fails at its fifth call
  and again at the rollback.\<close>

definition unopenable_env :: env where
  "unopenable_env = \<lparr>now = ''2024-01-01T00:00:00'', fault = None, numeric_text = SText,
     connect_fault = True, cursor_fault = False, rollback_fault = False\<rparr>"

definition failing_rollback_env :: env where
  "failing_rollback_env = \<lparr>now = ''2024-01-01T00:00:00'', fault = Some 4, numeric_text = SText,
     connect_fault = False, cursor_fault = False, rollback_fault = True\<rparr>"

text \<open>The database after the second paper, and after both papers, were added.\<close>

definition axxb_world :: world where
  "axxb_world = snd (add_paper example_env paper_axxb empty_world)"

definition two_papers_world :: world where
  "two_papers_world = snd (add_paper example_env paper_axxb (snd (add_paper example_env paper_gnn empty_world)))"

text \<open>A paper whose title has a NUL character between its a and its b, and the database
  that holds it.\<close>

definition paper_nul :: py_dict where
  "paper_nul = [(''id'', PStr ''p3''), (''title'', PStr [CHR ''a'', CHR 0x00, CHR ''b'']),
     (''authors'', PList []), (''source'', PStr ''acm''),
     (''publication_date'', PStr ''2023-06-01'')]"

definition nul_world :: world where
  "nul_world = snd (add_paper example_env paper_nul empty_world)"

section \<open>Basic facts\<close>

lemma then_do_Inr_iff: "then_do r f = Inr y \<longleftrightarrow> (\<exists>x. r = Inr x \<and> f x = Inr y)"
  by (cases r) (simp_all add: then_do_def)


lemma then_do_simps [simp]: "then_do (Inr x) f = f x" "then_do (Inl err) f = Inl err"
  by (simp_all add: then_do_def)

lemma step_Inr_iff: "step e k x = Inr y \<longleftrightarrow> fault e \<noteq> Some k \<and> y = x"
  by (auto simp: step_def)

lemma step_Inl_iff: "step e k x = Inl err \<longleftrightarrow> fault e = Some k \<and> err = Sqlite3Error"
  by (auto simp: step_def)

lemma step_no_fault [simp]: "fault e = None \<Longrightarrow> step e k x = Inr x"
  by (simp add: step_def)

lemma close_connect [simp]: "close (connect w) = w"
  by (simp add: close_def connect_def)

lemma close_connect_disk [simp]: "close (connect w\<lparr>disk := s\<rparr>) = w\<lparr>disk := s\<rparr>"
  by (simp add: close_def connect_def)

lemma disk_connect [simp]: "disk (connect w) = disk w"
  by (simp add: connect_def)

lemma find_append_cases:
  "find P (xs @ ys) = (case find P xs of None \<Rightarrow> find P ys | Some x \<Rightarrow> Some x)"
  by (induction xs) simp_all

subsection \<open>Dictionaries\<close>

lemma py_getitem_setitem_same [simp]: "py_getitem (py_setitem d k v) k = Inr v"
proof (cases "k \<in> fst ` set d")
  case True
  then have "map_of (map (\<lambda>(k', v'). (k', if k' = k then v else v')) d) k = Some v"
    by (induction d) auto
  with True show ?thesis by (simp add: py_getitem_def py_setitem_def)
next
  case False
  then have "map_of d k = None" by (simp add: map_of_eq_None_iff)
  with False show ?thesis by (simp add: py_getitem_def py_setitem_def map_add_def)
qed

lemma py_getitem_setitem_other [simp]:
  "k' \<noteq> k \<Longrightarrow> py_getitem (py_setitem d k v) k' = py_getitem d k'"
proof -
  assume ne: "k' \<noteq> k"
  have "map_of (map (\<lambda>(a, b). (a, if a = k then v else b)) d) k' = map_of d k'"
    using ne by (induction d) auto
  with ne show ?thesis
    by (simp add: py_getitem_def py_setitem_def map_add_def split: option.splits)
qed

subsection \<open>Join and split\<close>

lemma split_comma_not_Nil [simp]: "split_comma s \<noteq> []"
  by (cases s) simp_all

lemma split_comma_append:
  "CHR '','' \<notin> set x \<Longrightarrow> split_comma (x @ s) = (x @ hd (split_comma s)) # tl (split_comma s)"
  by (induction x) auto

lemma split_comma_no_comma: "CHR '','' \<notin> set x \<Longrightarrow> split_comma x = [x]"
  using split_comma_append [of x "[]"] by simp

lemma split_join_comma:
  "xs \<noteq> [] \<Longrightarrow> \<forall>x \<in> set xs. CHR '','' \<notin> set x \<Longrightarrow> split_comma (join_comma xs) = xs"
proof (induction xs rule: join_comma.induct)
  case 1
  then show ?case by simp
next
  case (2 x)
  then show ?case by (simp add: split_comma_no_comma)
next
  case (3 x y ys)
  then have "split_comma (join_comma (y # ys)) = y # ys" by simp
  with 3 show ?case by (simp add: split_comma_append)
qed

lemma str_items_map_PStr [simp]: "str_items (map PStr xs) = Inr xs"
  by (induction xs) simp_all

subsection \<open>Binding and inserting\<close>

lemma bind_all_Inr_iff:
  "bind_all ps = Inr vals \<longleftrightarrow> list_all2 (\<lambda>p v. bind p = Inr v) ps vals"
proof (induction ps arbitrary: vals)
  case Nil
  then show ?case by auto
next
  case (Cons p ps)
  show ?case
    by (cases vals) (auto simp: then_do_Inr_iff Cons.IH)
qed

text \<open>What a call of add_paper that returned True has done.\<close>

lemma add_paper_True:
  assumes "add_paper e paper w = (Inr True, w')"
  shows "\<exists>params vals. paper_params (now e) paper = Inr params \<and> bind_all params = Inr vals
     \<and> not_null_ok (new_row (numeric_text e) vals)
     \<and> primary_key_ok (new_row (numeric_text e) vals) (papers (disk w))
     \<and> w' = w\<lparr>disk := (disk w)\<lparr>papers := papers (disk w) @ [new_row (numeric_text e) vals]\<rparr>\<rparr>"
  using assms
  apply (simp add: add_paper_def Let_def split: sum.splits error.splits)
  apply (auto simp: then_do_Inr_iff execute_def commit_def step_Inr_iff insert_paper_def Let_def
      split: if_splits)
  done

lemma find_new_row:
  assumes "primary_key_ok r rows" "cell r ''id'' = SText pid"
  shows "find (\<lambda>r'. cell r' ''id'' = SText pid) (rows @ [r]) = Some r"
proof -
  from assms have "\<forall>r' \<in> set rows. cell r' ''id'' \<noteq> SText pid"
    by (fastforce simp: primary_key_ok_def image_iff)
  then have "find (\<lambda>r'. cell r' ''id'' = SText pid) rows = None"
    by (simp add: find_None_iff)
  with assms(2) show ?thesis by (simp add: find_append_cases)
qed

lemma paper_params_Inr:
  assumes "paper_params t paper = Inr params"
  shows "\<exists>pid title authors joined rest.
     py_getitem paper ''id'' = Inr pid \<and> py_getitem paper ''authors'' = Inr authors \<and>
     py_join authors = Inr joined \<and>
     params = pid # title # PStr joined # rest \<and> length rest = 11"
  using assms by (auto simp: paper_params_def then_do_Inr_iff)

lemma new_row_cells:
  assumes "list_all2 (\<lambda>p v. bind p = Inr v) (PStr pid # title # PStr joined # rest) vals"
    and "length rest = 11"
  shows "cell (new_row nt vals) ''id'' = SText pid"
    and "py_getitem (row_dict columns (new_row nt vals)) ''authors'' = Inr (PStr joined)"
    and "cell (new_row nt vals) ''authors'' = SText joined"
  using assms
  by (auto simp: list_all2_Cons1 length_Suc_conv numeral_eq_Suc new_row_def insert_columns_def
      cell_def affinity_def row_dict_def columns_def py_getitem_def)

lemma new_row_error_log: "cell (new_row nt vals) ''error_log'' = SNull"
proof -
  have "''error_log'' \<notin> fst ` set (map (\<lambda>(c, v). (c, affinity nt c v)) (zip insert_columns vals))"
    by (auto simp: insert_columns_def dest!: set_zip_leftD)
  then have "map_of (map (\<lambda>(c, v). (c, affinity nt c v)) (zip insert_columns vals)) ''error_log'' = None"
    by (simp add: map_of_eq_None_iff)
  then show ?thesis
    by (simp add: new_row_def cell_def map_add_def)
qed

text \<open>The definitions that evaluate the operations on the example values.\<close>

lemmas eval_simps = example_env_def paper_gnn_def paper_axxb_def empty_world_def add_paper_def
  paper_params_def py_getitem_def py_get_def execute_def commit_def insert_paper_def Let_def
  new_row_def insert_columns_def affinity_def not_null_ok_def primary_key_ok_def
  not_null_columns_def cell_def close_def connect_def step_def get_paper_def select_paper_def
  select_tags_def row_dict_def columns_def py_setitem_def

section \<open>Authors round trip\<close>

text \<open>What get_paper finds after add_paper has returned True.\<close>

lemma get_paper_after_add:
  assumes "add_paper e paper w = (Inr True, w')"
    and "py_getitem paper ''id'' = Inr (PStr pid)"
    and "py_getitem paper ''authors'' = Inr a"
    and "py_join a = Inr joined"
    and "fault e' = None"
  shows "\<exists>r d. select_paper pid (disk w') = Some r \<and> cell r ''authors'' = SText joined \<and>
       cell r ''error_log'' = SNull \<and>
       fst (get_paper e' pid w') = Inr (Some d) \<and>
       py_getitem d ''authors'' = Inr (PList (map PStr (split_comma joined)))"
proof -
  from add_paper_True [OF assms(1)] obtain params vals where
    params: "paper_params (now e) paper = Inr params" and
    vals: "bind_all params = Inr vals" and
    pk: "primary_key_ok (new_row (numeric_text e) vals) (papers (disk w))" and
    w': "w' = w\<lparr>disk := (disk w)\<lparr>papers := papers (disk w) @ [new_row (numeric_text e) vals]\<rparr>\<rparr>"
    by blast
  from paper_params_Inr [OF params] assms(2,3,4) obtain title rest where
    shape: "params = PStr pid # title # PStr joined # rest" "length rest = 11"
    by auto
  let ?r = "new_row (numeric_text e) vals"
  from vals have all2:
    "list_all2 (\<lambda>p v. bind p = Inr v) (PStr pid # title # PStr joined # rest) vals"
    unfolding shape(1) bind_all_Inr_iff .
  have id: "cell ?r ''id'' = SText pid"
    and au: "py_getitem (row_dict columns ?r) ''authors'' = Inr (PStr joined)"
    and ce: "cell ?r ''authors'' = SText joined"
    using new_row_cells [OF all2 shape(2)] by simp_all
  have sel: "select_paper pid (disk w') = Some ?r"
    using find_new_row [OF pk id] by (simp add: select_paper_def w')
  then have sel': "select_paper pid (disk (connect w')) = Some ?r"
    by simp
  have "\<exists>d. fst (get_paper e' pid w') = Inr (Some d) \<and>
       py_getitem d ''authors'' = Inr (PList (map PStr (split_comma joined)))"
    using assms(5) sel' au by (simp add: get_paper_def Let_def)
  with sel ce new_row_error_log [of "numeric_text e" vals] show ?thesis
    by blast
qed

text \<open>
  C1. A paper whose authors are a non-empty list of strings without a comma, once
  add_paper has returned True, is found by get_paper under its id with the same authors:
  splitting the joined text at its commas gives the list back.
\<close>

theorem authors_round_trip:
  assumes "py_getitem paper ''id'' = Inr (PStr pid)"
    and "py_getitem paper ''authors'' = Inr (PList (map PStr authors))"
    and "authors \<noteq> []"
    and "\<forall>a \<in> set authors. CHR '','' \<notin> set a"
    and "add_paper e paper w = (Inr True, w')"
    and "fault e' = None"
  shows "split_comma (join_comma authors) = authors \<and>
    (\<exists>d. fst (get_paper e' pid w') = Inr (Some d) \<and>
       py_getitem d ''authors'' = Inr (PList (map PStr authors)))"
proof -
  have rt: "split_comma (join_comma authors) = authors"
    using assms(3,4) by (rule split_join_comma)
  have "py_join (PList (map PStr authors)) = Inr (join_comma authors)"
    by simp
  from get_paper_after_add [OF assms(5) assms(1) assms(2) this assms(6)] rt
  show ?thesis by auto
qed
theorem authors_round_trip_witness:
  "add_paper example_env paper_gnn empty_world =
     (Inr True, snd (add_paper example_env paper_gnn empty_world)) \<and>
   (\<exists>d. fst (get_paper example_env ''p1'' (snd (add_paper example_env paper_gnn empty_world))) = Inr (Some d) \<and>
      py_getitem d ''authors'' = Inr (PList [PStr ''A'', PStr ''B'']))"
proof -
  have a: "add_paper example_env paper_gnn empty_world =
     (Inr True, snd (add_paper example_env paper_gnn empty_world))"
    by (simp add: eval_simps)
  have "py_getitem paper_gnn ''id'' = Inr (PStr ''p1'')"
    and "py_getitem paper_gnn ''authors'' = Inr (PList (map PStr [''A'', ''B'']))"
    and "[''A'', ''B''] \<noteq> []" and "\<forall>a \<in> set [''A'', ''B'']. CHR '','' \<notin> set a"
    and "fault example_env = None"
    by (simp_all add: paper_gnn_def py_getitem_def example_env_def)
  from authors_round_trip [OF this(1-4) a this(5)] a show ?thesis
    by simp
qed

section \<open>Empty authors\<close>

lemma storable_bind: "storable v \<Longrightarrow> \<exists>x. bind v = Inr x"
  by (cases "bind v") (simp_all add: storable_def)

lemma py_get_storable:
  assumes "\<forall>(k, v) \<in> set paper. k \<notin> set required_fields \<longrightarrow> storable v"
    and "k \<notin> set required_fields" and "storable dflt"
  shows "storable (py_get paper k dflt)"
proof (cases "map_of paper k")
  case None
  with assms(3) show ?thesis by (simp add: py_get_def)
next
  case (Some v)
  then have "(k, v) \<in> set paper" by (rule map_of_SomeD)
  with assms(1,2) have "storable v" by auto
  with Some show ?thesis by (simp add: py_get_def)
qed

text \<open>When add_paper returns True: the required fields are strings, the authors can be
  joined, the other values can be stored, the id is new and the engine does not fail.\<close>

lemma add_paper_succeeds:
  assumes "py_getitem paper ''id'' = Inr (PStr pid)"
    and "py_getitem paper ''title'' = Inr (PStr title)"
    and "py_getitem paper ''authors'' = Inr a" and "py_join a = Inr joined"
    and "py_getitem paper ''source'' = Inr (PStr source)"
    and "py_getitem paper ''publication_date'' = Inr (PStr pd)"
    and opt: "\<forall>(k, v) \<in> set paper. k \<notin> set required_fields \<longrightarrow> storable v"
    and fresh: "SText pid \<notin> set (map (\<lambda>r. cell r ''id'') (papers (disk w)))"
    and nofault: "fault e = None"
  shows "add_paper e paper w = (Inr True, snd (add_paper e paper w))"
proof -
  have st: "\<exists>x. bind (py_get paper k PNone) = Inr x"
    if "k \<notin> set required_fields" for k
    by (rule storable_bind, rule py_get_storable [OF opt that]) (simp add: storable_def)
  have "\<exists>x. bind (py_get paper ''is_paywalled'' (PBool False)) = Inr x"
    by (rule storable_bind, rule py_get_storable [OF opt])
      (simp_all add: storable_def required_fields_def)
  then obtain x5 where x5: "bind (py_get paper ''is_paywalled'' (PBool False)) = Inr x5" ..
  obtain x1 where x1: "bind (py_get paper ''abstract'' PNone) = Inr x1"
    using st [of "''abstract''"] by (auto simp: required_fields_def)
  obtain x2 where x2: "bind (py_get paper ''pdf_path'' PNone) = Inr x2"
    using st [of "''pdf_path''"] by (auto simp: required_fields_def)
  obtain x3 where x3: "bind (py_get paper ''bibtex_path'' PNone) = Inr x3"
    using st [of "''bibtex_path''"] by (auto simp: required_fields_def)
  obtain x4 where x4: "bind (py_get paper ''endnote_path'' PNone) = Inr x4"
    using st [of "''endnote_path''"] by (auto simp: required_fields_def)
  obtain x6 where x6: "bind (py_get paper ''summary'' PNone) = Inr x6"
    using st [of "''summary''"] by (auto simp: required_fields_def)
  obtain x7 where x7: "bind (py_get paper ''implications'' PNone) = Inr x7"
    using st [of "''implications''"] by (auto simp: required_fields_def)
  obtain x8 where x8: "bind (py_get paper ''topic_category'' PNone) = Inr x8"
    using st [of "''topic_category''"] by (auto simp: required_fields_def)
  define params where "params = [PStr pid, PStr title, PStr joined,
     py_get paper ''abstract'' PNone, PStr source, PStr pd, PStr (now e),
     py_get paper ''pdf_path'' PNone, py_get paper ''bibtex_path'' PNone,
     py_get paper ''endnote_path'' PNone, py_get paper ''is_paywalled'' (PBool False),
     py_get paper ''summary'' PNone, py_get paper ''implications'' PNone,
     py_get paper ''topic_category'' PNone]"
  define vals where "vals = [SText pid, SText title, SText joined, x1, SText source, SText pd,
     SText (now e), x2, x3, x4, x5, x6, x7, x8]"
  let ?r = "new_row (numeric_text e) vals"
  have pp: "paper_params (now e) paper = Inr params"
    by (simp add: paper_params_def params_def assms(1-6))
  have ba: "bind_all params = Inr vals"
    by (simp add: params_def vals_def x1 x2 x3 x4 x5 x6 x7 x8)
  have cells: "cell ?r ''id'' = SText pid" "cell ?r ''title'' = SText title"
    "cell ?r ''authors'' = SText joined" "cell ?r ''source'' = SText source"
    "cell ?r ''publication_date'' = SText pd" "cell ?r ''access_date'' = SText (now e)"
    by (simp_all add: vals_def new_row_def insert_columns_def cell_def affinity_def)
  have nn: "not_null_ok ?r"
    by (simp add: not_null_ok_def not_null_columns_def cells)
  from fresh cells(1) have pk: "primary_key_ok ?r (papers (disk w))"
    by (simp add: primary_key_ok_def)
  have "execute e 0 params (insert_paper (numeric_text e) (disk (connect w))) =
      Inr ((disk w)\<lparr>papers := papers (disk w) @ [?r]\<rparr>)"
    using nn pk nofault by (simp add: execute_def ba insert_paper_def Let_def)
  with pp nofault show ?thesis
    by (simp add: add_paper_def Let_def commit_def)
qed

text \<open>
  C10. A paper with an empty list of authors is accepted (its other fields being
  storable and its id new): the row holds the empty text as authors, and get_paper
  returns the one-element list of the empty string.
\<close>

theorem empty_authors_round_trip:
  assumes "py_getitem paper ''id'' = Inr (PStr pid)"
    and "py_getitem paper ''title'' = Inr (PStr title)"
    and "py_getitem paper ''authors'' = Inr (PList [])"
    and "py_getitem paper ''source'' = Inr (PStr source)"
    and "py_getitem paper ''publication_date'' = Inr (PStr pd)"
    and "\<forall>(k, v) \<in> set paper. k \<notin> set required_fields \<longrightarrow> storable v"
    and "SText pid \<notin> set (map (\<lambda>r. cell r ''id'') (papers (disk w)))"
    and "fault e = None" and "fault e' = None"
  shows "fst (add_paper e paper w) = Inr True \<and>
    (\<exists>r d. select_paper pid (disk (snd (add_paper e paper w))) = Some r \<and>
       cell r ''authors'' = SText [] \<and>
       fst (get_paper e' pid (snd (add_paper e paper w))) = Inr (Some d) \<and>
       py_getitem d ''authors'' = Inr (PList [PStr []]))"
proof -
  have j: "py_join (PList []) = Inr []" by simp
  have ok: "add_paper e paper w = (Inr True, snd (add_paper e paper w))"
    using assms(1-3) j assms(4-8) by (rule add_paper_succeeds)
  have "fst (add_paper e paper w) = Inr True"
    by (subst ok) simp
  moreover from get_paper_after_add [OF ok assms(1) assms(3) j assms(9)]
  have "\<exists>r d. select_paper pid (disk (snd (add_paper e paper w))) = Some r \<and>
       cell r ''authors'' = SText [] \<and>
       fst (get_paper e' pid (snd (add_paper e paper w))) = Inr (Some d) \<and>
       py_getitem d ''authors'' = Inr (PList [PStr []])"
    by auto
  ultimately show ?thesis ..
qed

theorem empty_authors_round_trip_witness:
  "fst (add_paper example_env paper_axxb empty_world) = Inr True \<and>
    (\<exists>r d. select_paper ''p2'' (disk (snd (add_paper example_env paper_axxb empty_world))) = Some r \<and>
       cell r ''authors'' = SText [] \<and>
       fst (get_paper example_env ''p2'' (snd (add_paper example_env paper_axxb empty_world))) = Inr (Some d) \<and>
       py_getitem d ''authors'' = Inr (PList [PStr []]))"
proof -
  have "py_getitem paper_axxb ''id'' = Inr (PStr ''p2'')"
    and "py_getitem paper_axxb ''title'' = Inr (PStr ''axxb'')"
    and "py_getitem paper_axxb ''authors'' = Inr (PList [])"
    and "py_getitem paper_axxb ''source'' = Inr (PStr ''acm'')"
    and "py_getitem paper_axxb ''publication_date'' = Inr (PStr ''2023-06-01'')"
    and "\<forall>(k, v) \<in> set paper_axxb. k \<notin> set required_fields \<longrightarrow> storable v"
    and "SText ''p2'' \<notin> set (map (\<lambda>r. cell r ''id'') (papers (disk empty_world)))"
    and "fault example_env = None"
    by (simp_all add: paper_axxb_def py_getitem_def example_env_def empty_world_def
        required_fields_def)
  from empty_authors_round_trip [OF this this(8)] show ?thesis .
qed

section \<open>What add_paper leaves unchanged\<close>

lemma add_paper_cases:
  "add_paper e paper w = (Inr True, snd (add_paper e paper w)) \<or>
   (fst (add_paper e paper w) \<noteq> Inr True \<and> snd (add_paper e paper w) = w)"
  by (simp add: add_paper_def Let_def commit_def then_do_def step_def
      split: sum.splits error.splits)

lemma add_tags_loop_papers:
  "add_tags_loop e k paper_id ts tx = Inr tx' \<Longrightarrow> papers tx' = papers tx"
proof (induction ts arbitrary: k tx)
  case Nil
  then show ?case by simp
next
  case (Cons t ts)
  from Cons.prems obtain i where
    "add_tags_loop e (k + 3) paper_id ts (insert_paper_tag paper_id i (insert_tag t tx)) = Inr tx'"
    by (auto simp: then_do_Inr_iff step_Inr_iff split: option.splits)
  from Cons.IH [OF this] show ?case
    by (simp add: insert_paper_tag_def insert_tag_def Let_def)
qed

lemma add_tags_papers: "papers (disk (snd (add_tags e paper_id ts w))) = papers (disk w)"
proof (cases "add_tags_loop e 0 paper_id ts (disk w)")
  case (Inl err)
  then show ?thesis
    by (simp add: add_tags_def Let_def split: error.splits)
next
  case (Inr tx)
  from add_tags_loop_papers [OF this] Inr show ?thesis
    by (simp add: add_tags_def Let_def commit_def step_def split: error.splits)
qed

lemma get_paper_disk: "disk (snd (get_paper e paper_id w)) = disk w"
  by (simp add: get_paper_def Let_def)

lemma search_papers_disk: "disk (snd (search_papers e query source from_date w)) = disk w"
  by (simp add: search_papers_def Let_def close_def connect_def split: sum.splits)

lemma add_paper_True_row:
  assumes "add_paper e paper w = (Inr True, w')"
  shows "\<exists>r. papers (disk w') = papers (disk w) @ [r] \<and> cell r ''error_log'' = SNull"
proof -
  from add_paper_True [OF assms] obtain vals where
    "w' = w\<lparr>disk := (disk w)\<lparr>papers := papers (disk w) @ [new_row (numeric_text e) vals]\<rparr>\<rparr>"
    by blast
  then show ?thesis
    using new_row_error_log [of "numeric_text e" vals] by simp
qed

text \<open>
  C9. The INSERT of add_paper does not name \<^verbatim>\<open>error_log\<close>: the row that a successful
  add_paper appends has NULL there, whatever the input holds under that key. A call of
  add_paper that does not return True, and every call of add_tags, get_paper and
  search_papers, leave the rows of \<^verbatim>\<open>papers\<close> as they were; so only update_paper, whose
  allow-list names \<^verbatim>\<open>error_log\<close>, can put a value there.
\<close>

theorem add_paper_error_log_null:
  "(add_paper e paper w = (Inr True, w') \<longrightarrow>
      (\<exists>r. papers (disk w') = papers (disk w) @ [r] \<and> cell r ''error_log'' = SNull)) \<and>
   (fst (add_paper e paper w) \<noteq> Inr True \<longrightarrow> disk (snd (add_paper e paper w)) = disk w) \<and>
   papers (disk (snd (add_tags e paper_id ts w))) = papers (disk w) \<and>
   disk (snd (get_paper e paper_id w)) = disk w \<and>
   disk (snd (search_papers e query source from_date w)) = disk w \<and>
   ''error_log'' \<in> set valid_fields \<and> ''error_log'' \<notin> set insert_columns"
proof -
  have "fst (add_paper e paper w) \<noteq> Inr True \<longrightarrow> disk (snd (add_paper e paper w)) = disk w"
    using add_paper_cases [of e paper w] by (metis fst_conv)
  moreover have "''error_log'' \<in> set valid_fields \<and> ''error_log'' \<notin> set insert_columns"
    by (simp add: valid_fields_def insert_columns_def)
  ultimately show ?thesis
    using add_paper_True_row [of e paper w w'] add_tags_papers get_paper_disk search_papers_disk
    by blast
qed

theorem add_paper_error_log_null_witness:
  "py_getitem paper_gnn ''error_log'' = Inr (PStr ''boom'') \<and>
   add_paper example_env paper_gnn empty_world =
     (Inr True, snd (add_paper example_env paper_gnn empty_world)) \<and>
   (\<exists>r. papers (disk (snd (add_paper example_env paper_gnn empty_world))) =
        papers (disk empty_world) @ [r] \<and> cell r ''error_log'' = SNull)"
proof -
  have a: "add_paper example_env paper_gnn empty_world =
     (Inr True, snd (add_paper example_env paper_gnn empty_world))"
    by (simp add: eval_simps)
  have b: "py_getitem paper_gnn ''error_log'' = Inr (PStr ''boom'')"
    by (simp add: paper_gnn_def py_getitem_def)
  from add_paper_error_log_null [of example_env paper_gnn empty_world
      "snd (add_paper example_env paper_gnn empty_world)" "''p1''" "[]" "[]" None None] a b
  show ?thesis by blast
qed

section \<open>Duplicate ids\<close>







section \<open>The batch of add_tags\<close>

lemma select_after_insert: "\<exists>i. select_tag_id t (insert_tag t tx) = Some i"
proof -
  have "t \<in> snd ` set (tags (insert_tag t tx))"
    by (auto simp: insert_tag_def Let_def)
  then have "find (\<lambda>(i, n). n = t) (tags (insert_tag t tx)) \<noteq> None"
    by (auto simp: find_None_iff)
  then show ?thesis
    by (auto simp: select_tag_id_def)
qed

text \<open>The loop fails only with the engine, and it does when the engine's failing call is
  one of its own.\<close>

lemma add_tags_loop_Inl:
  "add_tags_loop e k paper_id ts tx = Inl err \<Longrightarrow>
     err = Sqlite3Error \<and> (\<exists>j. fault e = Some j \<and> k \<le> j \<and> j < k + 3 * length ts)"
proof (induction ts arbitrary: k tx)
  case Nil
  then show ?case by simp
next
  case (Cons t ts)
  obtain i where i: "select_tag_id t (insert_tag t tx) = Some i"
    using select_after_insert by blast
  show ?case
  proof (cases "fault e = Some k \<or> fault e = Some (k + 1) \<or> fault e = Some (k + 2)")
    case True
    with Cons.prems i show ?thesis
      by (auto simp: step_def split: if_splits)
  next
    case False
    with Cons.prems i have
      "add_tags_loop e (k + 3) paper_id ts (insert_paper_tag paper_id i (insert_tag t tx)) = Inl err"
      by (simp add: step_def)
    from Cons.IH [OF this] show ?thesis by auto
  qed
qed

lemma add_tags_loop_fault:
  "fault e = Some j \<Longrightarrow> k \<le> j \<Longrightarrow> j < k + 3 * length ts \<Longrightarrow>
     add_tags_loop e k paper_id ts tx = Inl Sqlite3Error"
proof (induction ts arbitrary: k tx)
  case Nil
  then show ?case by simp
next
  case (Cons t ts)
  obtain i where i: "select_tag_id t (insert_tag t tx) = Some i"
    using select_after_insert by blast
  show ?case
  proof (cases "j < k + 3")
    case True
    with Cons.prems have "j = k \<or> j = k + 1 \<or> j = k + 2" by arith
    with Cons.prems(1) i show ?thesis
      by (auto simp: step_def)
  next
    case False
    with Cons.prems have "k + 3 \<le> j" "j < (k + 3) + 3 * length ts" by simp_all
    from Cons.IH [OF Cons.prems(1) this] False Cons.prems(1) i show ?thesis
      by (simp add: step_def)
  qed
qed

text \<open>What a call of add_tags does, by what fails: opening the connection, making the
  cursor, a call of the batch (with or without a failing rollback), or nothing.\<close>

lemma add_tags_cases:
  "add_tags e paper_id ts w =
     (if connect_fault e then (Inl Sqlite3Error, w)
      else if cursor_fault e then (Inl Sqlite3Error, connect w)
      else if \<exists>j. fault e = Some j \<and> j \<le> 3 * length ts
        then (if rollback_fault e then (Inl Sqlite3Error, w) else (Inr (), w))
      else (case add_tags_loop e 0 paper_id ts (disk w) of
              Inr tx \<Rightarrow> (Inr (), w\<lparr>disk := tx\<rparr>)
            | Inl err \<Rightarrow> (Inl err, w)))"
proof (cases "add_tags_loop e 0 paper_id ts (disk w)")
  case (Inl err)
  from add_tags_loop_Inl [OF this] obtain j
    where "err = Sqlite3Error" "fault e = Some j" "j < 3 * length ts"
    by auto
  with Inl show ?thesis
    by (simp add: add_tags_def Let_def connect_def close_def)
next
  case (Inr tx)
  have nofault: "\<not> j < 3 * length ts" if "fault e = Some j" for j
    using add_tags_loop_fault [OF that, of 0 ts paper_id "disk w"] Inr by auto
  show ?thesis
  proof (cases "fault e = Some (3 * length ts)")
    case True
    with Inr show ?thesis
      by (simp add: add_tags_def Let_def commit_def step_def connect_def close_def)
  next
    case False
    with nofault have nf: "\<not> (\<exists>j. fault e = Some j \<and> j \<le> 3 * length ts)"
      by (metis le_neq_implies_less)
    have "step e (3 * length ts) tx = Inr tx"
      using False by (simp add: step_def)
    with Inr nf show ?thesis
      by (auto simp: add_tags_def Let_def commit_def connect_def close_def)
  qed
qed

text \<open>
  C6. The batch is atomic: whenever the connection, the cursor, a statement of the loop
  or the commit fails, the file holds what it held before the call, and otherwise it
  holds the result of the whole loop. But add_tags is not silent: an error of
  \<^verbatim>\<open>sqlite3.connect\<close> or of \<^verbatim>\<open>conn.cursor()\<close>, which stand before the \<^verbatim>\<open>try\<close>, and an error of
  \<^verbatim>\<open>conn.rollback()\<close>, which runs inside the handler, leave the function as exceptions;
  after a failed \<^verbatim>\<open>cursor()\<close> the connection is still open. Only when none of these three
  fails does the call return normally whatever the batch does.
\<close>

theorem add_tags_lets_errors_out:
  "(connect_fault e \<longrightarrow> add_tags e paper_id ts w = (Inl Sqlite3Error, w)) \<and>
   (\<not> connect_fault e \<and> cursor_fault e \<longrightarrow>
      add_tags e paper_id ts w = (Inl Sqlite3Error, connect w)) \<and>
   (\<not> connect_fault e \<and> \<not> cursor_fault e \<and> rollback_fault e \<and>
    (\<exists>j. fault e = Some j \<and> j \<le> 3 * length ts) \<longrightarrow>
      add_tags e paper_id ts w = (Inl Sqlite3Error, w)) \<and>
   (\<not> connect_fault e \<and> \<not> cursor_fault e \<and> \<not> rollback_fault e \<longrightarrow>
      fst (add_tags e paper_id ts w) = Inr () \<and>
      open_conns (snd (add_tags e paper_id ts w)) = open_conns w) \<and>
   (connect_fault e \<or> cursor_fault e \<or> (\<exists>j. fault e = Some j \<and> j \<le> 3 * length ts) \<longrightarrow>
      disk (snd (add_tags e paper_id ts w)) = disk w) \<and>
   (disk (snd (add_tags e paper_id ts w)) = disk w \<or>
    add_tags_loop e 0 paper_id ts (disk w) = Inr (disk (snd (add_tags e paper_id ts w))))"
proof (cases "add_tags_loop e 0 paper_id ts (disk w)")
  case (Inl err)
  from add_tags_loop_Inl [OF this] obtain j
    where "err = Sqlite3Error" "fault e = Some j" "j \<le> 3 * length ts"
    by auto
  with Inl show ?thesis
    by (auto simp: add_tags_cases connect_def)
next
  case (Inr tx)
  then show ?thesis
    by (simp add: add_tags_cases connect_def)
qed

theorem add_tags_lets_errors_out_witness:
  "connect_fault unopenable_env \<and>
   add_tags unopenable_env ''p1'' [''x''] empty_world = (Inl Sqlite3Error, empty_world) \<and>
   \<not> connect_fault failing_rollback_env \<and> \<not> cursor_fault failing_rollback_env \<and>
   rollback_fault failing_rollback_env \<and> fault failing_rollback_env = Some 4 \<and>
   (4::nat) \<le> 3 * length [''x'', ''z''] \<and>
   add_tags failing_rollback_env ''p2'' [''x'', ''z''] tagged_world = (Inl Sqlite3Error, tagged_world) \<and>
   add_tags_loop (failing_env\<lparr>fault := None\<rparr>) 0 ''p2'' [''x'', ''z''] (disk tagged_world) \<noteq>
     Inr (disk tagged_world) \<and>
   add_tags failing_env ''p2'' [''x'', ''z''] tagged_world = (Inr (), tagged_world)"
proof -
  have u: "connect_fault unopenable_env"
    by (simp add: unopenable_env_def)
  have r: "\<not> connect_fault failing_rollback_env \<and> \<not> cursor_fault failing_rollback_env \<and>
      rollback_fault failing_rollback_env \<and> fault failing_rollback_env = Some 4 \<and>
      (4::nat) \<le> 3 * length [''x'', ''z'']"
    by (simp add: failing_rollback_env_def)
  have f: "\<not> connect_fault failing_env \<and> \<not> cursor_fault failing_env \<and>
      \<not> rollback_fault failing_env \<and> fault failing_env = Some 4 \<and>
      (4::nat) \<le> 3 * length [''x'', ''z'']"
    by (simp add: failing_env_def)
  have l: "add_tags_loop (failing_env\<lparr>fault := None\<rparr>) 0 ''p2'' [''x'', ''z''] (disk tagged_world) \<noteq>
     Inr (disk tagged_world)"
    by (simp add: failing_env_def tagged_world_def step_def insert_tag_def select_tag_id_def
        insert_paper_tag_def Let_def)
  from add_tags_lets_errors_out [of unopenable_env "''p1''" "[''x'']" empty_world] u
  have 1: "add_tags unopenable_env ''p1'' [''x''] empty_world = (Inl Sqlite3Error, empty_world)"
    by blast
  from add_tags_lets_errors_out [of failing_rollback_env "''p2''" "[''x'', ''z'']" tagged_world] r
  have 2: "add_tags failing_rollback_env ''p2'' [''x'', ''z''] tagged_world =
      (Inl Sqlite3Error, tagged_world)"
    by blast
  from add_tags_lets_errors_out [of failing_env "''p2''" "[''x'', ''z'']" tagged_world] f
  have "fst (add_tags failing_env ''p2'' [''x'', ''z''] tagged_world) = Inr ()"
    and "open_conns (snd (add_tags failing_env ''p2'' [''x'', ''z''] tagged_world)) = open_conns tagged_world"
    and "disk (snd (add_tags failing_env ''p2'' [''x'', ''z''] tagged_world)) = disk tagged_world"
    by blast+
  then have 3: "add_tags failing_env ''p2'' [''x'', ''z''] tagged_world = (Inr (), tagged_world)"
    by (cases "add_tags failing_env ''p2'' [''x'', ''z''] tagged_world") simp
  from u r l 1 2 3 show ?thesis by blast
qed

section \<open>Connections\<close>

lemma add_paper_open_conns: "open_conns (snd (add_paper e paper w)) = open_conns w"
  by (simp add: add_paper_def Let_def commit_def then_do_def step_def close_def connect_def
      split: sum.splits error.splits)

lemma update_paper_open_conns: "open_conns (snd (update_paper e paper_id updates w)) = open_conns w"
  by (simp add: update_paper_def Let_def commit_def then_do_def step_def close_def connect_def
      split: sum.splits error.splits list.splits)

lemma search_papers_open_conns:
  "open_conns (snd (search_papers e query source from_date w)) =
     (case fst (search_papers e query source from_date w) of
        Inr found \<Rightarrow> open_conns w
      | Inl err \<Rightarrow> Suc (open_conns w))"
  by (simp add: search_papers_def Let_def close_def connect_def split: sum.splits)

text \<open>
  C7. get_paper opens a connection and has no \<^verbatim>\<open>conn.close()\<close>: on every path, found,
  not found or failed, one more connection is open after the call than before it.
\<close>

theorem get_paper_leaves_connection_open:
  "open_conns (snd (get_paper e paper_id w)) = Suc (open_conns w)"
  by (simp add: get_paper_def Let_def connect_def)

theorem get_paper_leaves_connection_open_witness:
  "get_paper example_env ''p1'' empty_world = (Inr None, empty_world\<lparr>open_conns := 1\<rparr>)"
proof -
  have "fst (get_paper example_env ''p1'' empty_world) = Inr None"
    and "disk (snd (get_paper example_env ''p1'' empty_world)) = disk empty_world"
    by (simp_all add: eval_simps)
  with get_paper_leaves_connection_open [of example_env "''p1''" empty_world]
  show ?thesis
    by (cases "get_paper example_env ''p1'' empty_world") (simp add: empty_world_def)
qed

section \<open>Tags are added once\<close>

lemma fold_max_ge: "(m::nat) \<le> fold max xs m \<and> (\<forall>x \<in> set xs. x \<le> fold max xs m)"
proof (induction xs arbitrary: m)
  case Nil
  show ?case by simp
next
  case (Cons x xs)
  from Cons.IH [of "max x m"] show ?case by auto
qed

lemma new_tag_id_fresh: "Suc (fold max (map fst ts) m) \<notin> fst ` set ts"
proof
  assume "Suc (fold max (map fst ts) m) \<in> fst ` set ts"
  then have "Suc (fold max (map fst ts) m) \<in> set (map fst ts)" by simp
  with fold_max_ge [of m "map fst ts"] have "Suc (fold max (map fst ts) m) \<le> fold max (map fst ts) m"
    by blast
  then show False by simp
qed

lemma insert_tag_tables_ok: "tables_ok s \<Longrightarrow> tables_ok (insert_tag t s)"
  using new_tag_id_fresh [of "tags s" "tag_seq s"]
  by (auto simp: tables_ok_def insert_tag_def Let_def)

lemma insert_paper_tag_tables_ok: "tables_ok s \<Longrightarrow> tables_ok (insert_paper_tag paper_id i s)"
  by (auto simp: tables_ok_def insert_paper_tag_def)

lemma find_append_Some: "find P xs = Some x \<Longrightarrow> find P (xs @ ys) = Some x"
  by (simp add: find_append_cases)

lemma select_tag_id_insert_tag:
  "select_tag_id x s = Some i \<Longrightarrow> select_tag_id x (insert_tag t s) = Some i"
  by (auto simp: select_tag_id_def insert_tag_def Let_def find_append_cases split: option.splits)

lemma tagged_step:
  "tagged paper_id x s \<Longrightarrow> tagged paper_id x (insert_paper_tag paper_id i (insert_tag t s))"
proof -
  assume "tagged paper_id x s"
  then obtain j where j: "select_tag_id x s = Some j" "(paper_id, j) \<in> set (paper_tags s)"
    by (auto simp: tagged_def split: option.splits)
  from select_tag_id_insert_tag [OF j(1), of t]
  have "select_tag_id x (insert_paper_tag paper_id i (insert_tag t s)) = Some j"
    by (simp add: select_tag_id_def insert_paper_tag_def)
  moreover from j(2) have "(paper_id, j) \<in> set (paper_tags (insert_paper_tag paper_id i (insert_tag t s)))"
    by (simp add: insert_paper_tag_def insert_tag_def Let_def)
  ultimately show ?thesis by (simp add: tagged_def)
qed

lemma find_Some_mem: "find P xs = Some y \<Longrightarrow> y \<in> set xs \<and> P y"
  by (induction xs) (auto split: if_splits)

lemma select_tag_id_Some_mem:
  assumes "select_tag_id x s = Some j"
  shows "x \<in> set (map snd (tags s))"
proof -
  from assms obtain n where "find (\<lambda>(i, n). n = x) (tags s) = Some (j, n)"
    by (auto simp: select_tag_id_def)
  from find_Some_mem [OF this] have "(j, x) \<in> set (tags s)" by auto
  then show ?thesis by force
qed

lemma tagged_own_step:
  assumes "select_tag_id t (insert_tag t s) = Some i"
  shows "tagged paper_id t (insert_paper_tag paper_id i (insert_tag t s))"
proof -
  have "select_tag_id t (insert_paper_tag paper_id i (insert_tag t s)) = Some i"
    using assms by (simp add: select_tag_id_def insert_paper_tag_def)
  moreover have "(paper_id, i) \<in> set (paper_tags (insert_paper_tag paper_id i (insert_tag t s)))"
    by (simp add: insert_paper_tag_def)
  ultimately show ?thesis by (simp add: tagged_def)
qed

lemma tagged_noop:
  assumes "tagged paper_id t s" and "select_tag_id t (insert_tag t s) = Some i"
  shows "tags (insert_paper_tag paper_id i (insert_tag t s)) = tags s"
    and "paper_tags (insert_paper_tag paper_id i (insert_tag t s)) = paper_tags s"
proof -
  from assms(1) obtain j where j: "select_tag_id t s = Some j" "(paper_id, j) \<in> set (paper_tags s)"
    by (auto simp: tagged_def split: option.splits)
  from j(1) have mem: "t \<in> set (map snd (tags s))"
    by (rule select_tag_id_Some_mem)
  then show "tags (insert_paper_tag paper_id i (insert_tag t s)) = tags s"
    by (simp add: insert_paper_tag_def insert_tag_def Let_def)
  from select_tag_id_insert_tag [OF j(1), of t] assms(2) have "i = j" by simp
  with j(2) mem show "paper_tags (insert_paper_tag paper_id i (insert_tag t s)) = paper_tags s"
    by (simp add: insert_paper_tag_def insert_tag_def Let_def)
qed

lemma tagged_cong:
  "tags s = tags s' \<Longrightarrow> paper_tags s = paper_tags s' \<Longrightarrow> tagged paper_id t s = tagged paper_id t s'"
  by (auto simp: tagged_def select_tag_id_def split: option.splits)

text \<open>One turn of the loop when the engine does not fail.\<close>

lemma add_tags_loop_Cons:
  assumes "add_tags_loop e k paper_id (t # ts) tx = Inr tx'"
  shows "\<exists>i. select_tag_id t (insert_tag t tx) = Some i \<and>
     add_tags_loop e (k + 3) paper_id ts (insert_paper_tag paper_id i (insert_tag t tx)) = Inr tx'"
  using assms by (auto simp: then_do_Inr_iff step_Inr_iff split: option.splits)

lemma add_tags_loop_tables_ok:
  "add_tags_loop e k paper_id ts tx = Inr tx' \<Longrightarrow> tables_ok tx \<Longrightarrow> tables_ok tx'"
proof (induction ts arbitrary: k tx)
  case Nil
  then show ?case by simp
next
  case (Cons t ts)
  from add_tags_loop_Cons [OF Cons.prems(1)] obtain i where
    "add_tags_loop e (k + 3) paper_id ts (insert_paper_tag paper_id i (insert_tag t tx)) = Inr tx'"
    by blast
  from Cons.IH [OF this] Cons.prems(2) show ?case
    by (simp add: insert_tag_tables_ok insert_paper_tag_tables_ok)
qed

lemma add_tags_loop_keeps_tagged:
  "add_tags_loop e k paper_id ts tx = Inr tx' \<Longrightarrow> tagged paper_id x tx \<Longrightarrow> tagged paper_id x tx'"
proof (induction ts arbitrary: k tx)
  case Nil
  then show ?case by simp
next
  case (Cons t ts)
  from add_tags_loop_Cons [OF Cons.prems(1)] obtain i where
    "add_tags_loop e (k + 3) paper_id ts (insert_paper_tag paper_id i (insert_tag t tx)) = Inr tx'"
    by blast
  from Cons.IH [OF this] Cons.prems(2) show ?case
    by (simp add: tagged_step)
qed

lemma add_tags_loop_tagged:
  "add_tags_loop e k paper_id ts tx = Inr tx' \<Longrightarrow> x \<in> set ts \<Longrightarrow> tagged paper_id x tx'"
proof (induction ts arbitrary: k tx)
  case Nil
  then show ?case by simp
next
  case (Cons t ts)
  from add_tags_loop_Cons [OF Cons.prems(1)] obtain i where
    i: "select_tag_id t (insert_tag t tx) = Some i" and
    rest: "add_tags_loop e (k + 3) paper_id ts (insert_paper_tag paper_id i (insert_tag t tx)) = Inr tx'"
    by blast
  show ?case
  proof (cases "x = t")
    case True
    with add_tags_loop_keeps_tagged [OF rest tagged_own_step [OF i]] show ?thesis by simp
  next
    case False
    with Cons.prems(2) have "x \<in> set ts" by simp
    with Cons.IH [OF rest] show ?thesis .
  qed
qed

lemma add_tags_loop_noop:
  "add_tags_loop e k paper_id ts tx = Inr tx' \<Longrightarrow> \<forall>t \<in> set ts. tagged paper_id t tx \<Longrightarrow>
     tags tx' = tags tx \<and> paper_tags tx' = paper_tags tx"
proof (induction ts arbitrary: k tx)
  case Nil
  then show ?case by simp
next
  case (Cons t ts)
  from add_tags_loop_Cons [OF Cons.prems(1)] obtain i where
    i: "select_tag_id t (insert_tag t tx) = Some i" and
    rest: "add_tags_loop e (k + 3) paper_id ts (insert_paper_tag paper_id i (insert_tag t tx)) = Inr tx'"
    by blast
  let ?s = "insert_paper_tag paper_id i (insert_tag t tx)"
  from Cons.prems(2) have "tagged paper_id t tx" by simp
  from tagged_noop [OF this i] have same: "tags ?s = tags tx" "paper_tags ?s = paper_tags tx" .
  with Cons.prems(2) have "\<forall>u \<in> set ts. tagged paper_id u ?s"
    using tagged_cong [OF same] by simp
  from Cons.IH [OF rest this] same show ?case by simp
qed

text \<open>The counter of \<^verbatim>\<open>AUTOINCREMENT\<close>: once no id is above it, every INSERT moves it by one.\<close>

lemma fold_max_le: "\<forall>x \<in> set xs. x \<le> (m::nat) \<Longrightarrow> fold max xs m = m"
  by (induction xs) (simp_all add: max_def)

lemma insert_tag_bounded:
  "\<forall>i \<in> fst ` set (tags (insert_tag t s)). i \<le> tag_seq (insert_tag t s)"
  using fold_max_ge [of "tag_seq s" "map fst (tags s)"]
  by (auto simp: insert_tag_def Let_def)

lemma insert_tag_seq:
  assumes "\<forall>i \<in> fst ` set (tags s). i \<le> tag_seq s"
  shows "tag_seq (insert_tag t s) = Suc (tag_seq s)"
proof -
  from assms have "fold max (map fst (tags s)) (tag_seq s) = tag_seq s"
    by (intro fold_max_le) simp
  then show ?thesis
    by (simp add: insert_tag_def Let_def)
qed

lemma add_tags_loop_bounded:
  "add_tags_loop e k paper_id ts tx = Inr tx' \<Longrightarrow>
     ts \<noteq> [] \<or> (\<forall>i \<in> fst ` set (tags tx). i \<le> tag_seq tx) \<Longrightarrow>
     \<forall>i \<in> fst ` set (tags tx'). i \<le> tag_seq tx'"
proof (induction ts arbitrary: k tx)
  case Nil
  then show ?case by simp
next
  case (Cons t ts)
  from add_tags_loop_Cons [OF Cons.prems(1)] obtain i where
    rest: "add_tags_loop e (k + 3) paper_id ts (insert_paper_tag paper_id i (insert_tag t tx)) = Inr tx'"
    by blast
  let ?s = "insert_paper_tag paper_id i (insert_tag t tx)"
  have "tags ?s = tags (insert_tag t tx)" "tag_seq ?s = tag_seq (insert_tag t tx)"
    by (simp_all add: insert_paper_tag_def)
  with insert_tag_bounded [of t tx] have "\<forall>i \<in> fst ` set (tags ?s). i \<le> tag_seq ?s"
    by simp
  with Cons.IH [OF rest] show ?case by blast
qed

lemma add_tags_loop_seq:
  "add_tags_loop e k paper_id ts tx = Inr tx' \<Longrightarrow>
     \<forall>i \<in> fst ` set (tags tx). i \<le> tag_seq tx \<Longrightarrow>
     tag_seq tx' = tag_seq tx + length ts"
proof (induction ts arbitrary: k tx)
  case Nil
  then show ?case by simp
next
  case (Cons t ts)
  from add_tags_loop_Cons [OF Cons.prems(1)] obtain i where
    rest: "add_tags_loop e (k + 3) paper_id ts (insert_paper_tag paper_id i (insert_tag t tx)) = Inr tx'"
    by blast
  let ?s = "insert_paper_tag paper_id i (insert_tag t tx)"
  have same: "tags ?s = tags (insert_tag t tx)" "tag_seq ?s = tag_seq (insert_tag t tx)"
    by (simp_all add: insert_paper_tag_def)
  with insert_tag_bounded [of t tx] have "\<forall>i \<in> fst ` set (tags ?s). i \<le> tag_seq ?s"
    by simp
  from Cons.IH [OF rest this] same(2) insert_tag_seq [OF Cons.prems(2), of t] show ?case
    by simp
qed

text \<open>A call of add_tags when nothing fails.\<close>

lemma add_tags_no_fault:
  assumes "fault e = None" and "\<not> connect_fault e" and "\<not> cursor_fault e"
  shows "\<exists>tx. add_tags_loop e 0 paper_id ts (disk w) = Inr tx \<and>
     add_tags e paper_id ts w = (Inr (), w\<lparr>disk := tx\<rparr>)"
proof (cases "add_tags_loop e 0 paper_id ts (disk w)")
  case (Inl err)
  from add_tags_loop_Inl [OF this] assms show ?thesis by simp
next
  case (Inr tx)
  with assms show ?thesis
    by (simp add: add_tags_cases)
qed

lemma add_tags_tables_ok:
  assumes "tables_ok (disk w)"
  shows "tables_ok (disk (snd (add_tags e paper_id ts w)))"
proof (cases "add_tags_loop e 0 paper_id ts (disk w)")
  case (Inl err)
  with assms show ?thesis
    by (simp add: add_tags_cases connect_def)
next
  case (Inr tx)
  from add_tags_loop_tables_ok [OF this assms] Inr assms show ?thesis
    by (simp add: add_tags_cases connect_def)
qed

lemma add_tags_calls_tables_ok:
  "tables_ok (disk w) \<Longrightarrow>
     tables_ok (disk (fold (\<lambda>ts w. snd (add_tags e paper_id ts w)) tss w))"
  by (induction tss arbitrary: w) (simp_all add: add_tags_tables_ok)

lemma distinct_filter_one:
  "distinct xs \<Longrightarrow> y \<in> set xs \<Longrightarrow> filter (\<lambda>z. z = y) xs = [y]"
proof (induction xs)
  case Nil
  then show ?case by simp
next
  case (Cons a xs)
  show ?case
  proof (cases "a = y")
    case True
    with Cons.prems have "filter (\<lambda>z. z = y) xs = []"
      by (auto simp: filter_empty_conv)
    with True show ?thesis by simp
  next
    case False
    with Cons show ?thesis by simp
  qed
qed

lemma distinct_names_filter_one:
  "distinct (map snd ts) \<Longrightarrow> (i, x) \<in> set ts \<Longrightarrow> filter (\<lambda>(j, n). n = x) ts = [(i, x)]"
proof (induction ts)
  case Nil
  then show ?case by simp
next
  case (Cons a ts)
  show ?case
  proof (cases "snd a = x")
    case True
    with Cons.prems have "x \<notin> snd ` set ts" by simp
    then have no: "\<forall>j. (j, x) \<notin> set ts" by force
    then have "filter (\<lambda>(j, n). n = x) ts = []"
      by (auto simp: filter_empty_conv)
    moreover from no Cons.prems(2) have "a = (i, x)" by auto
    ultimately show ?thesis by simp
  next
    case False
    with Cons show ?thesis by (auto split: prod.splits)
  qed
qed

lemma tagged_rows:
  assumes "tables_ok s" and "tagged paper_id x s"
  shows "\<exists>i. filter (\<lambda>(j, n). n = x) (tags s) = [(i, x)] \<and>
     filter (\<lambda>pt. pt = (paper_id, i)) (paper_tags s) = [(paper_id, i)]"
proof -
  from assms(1) have d: "distinct (map snd (tags s))" and dp: "distinct (paper_tags s)"
    by (simp_all add: tables_ok_def)
  from assms(2) obtain j where j: "select_tag_id x s = Some j" "(paper_id, j) \<in> set (paper_tags s)"
    by (auto simp: tagged_def split: option.splits)
  from j(1) obtain n where "find (\<lambda>(i, n). n = x) (tags s) = Some (j, n)"
    by (auto simp: select_tag_id_def)
  from find_Some_mem [OF this] have "(j, x) \<in> set (tags s)" by auto
  with d have "filter (\<lambda>(i, n). n = x) (tags s) = [(j, x)]"
    by (rule distinct_names_filter_one)
  moreover from dp j(2) have "filter (\<lambda>pt. pt = (paper_id, j)) (paper_tags s) = [(paper_id, j)]"
    by (rule distinct_filter_one)
  ultimately show ?thesis by blast
qed

text \<open>
  C5. After one or more calls of add_tags for a paper, each with a list that holds the
  name \<open>x\<close> (nothing failing, the tables within the constraints of the schema before the
  first call): \<^verbatim>\<open>tags\<close> has exactly one row named \<open>x\<close>, and \<^verbatim>\<open>paper_tags\<close> has exactly one row
  that links the paper to the id of that row. Repeating the last call changes one thing
  and no other: the counter of \<^verbatim>\<open>AUTOINCREMENT\<close> moves on by the length of the list.
\<close>

theorem add_tags_idempotent:
  assumes "tables_ok (disk w)"
    and "fault e = None" and "\<not> connect_fault e" and "\<not> cursor_fault e"
    and "tss \<noteq> []" and "\<forall>ts \<in> set tss. x \<in> set ts"
    and "w' = fold (\<lambda>ts w. snd (add_tags e paper_id ts w)) tss w"
  shows "(\<exists>i. filter (\<lambda>(j, n). n = x) (tags (disk w')) = [(i, x)] \<and>
          filter (\<lambda>pt. pt = (paper_id, i)) (paper_tags (disk w')) = [(paper_id, i)]) \<and>
     add_tags e paper_id (last tss) w' =
       (Inr (), w'\<lparr>disk := (disk w')\<lparr>tag_seq := tag_seq (disk w') + length (last tss)\<rparr>\<rparr>)"
proof -
  note nf = assms(2,3,4)
  from assms(5) obtain tss0 ts where tss: "tss = tss0 @ [ts]"
    by (cases tss rule: rev_cases) auto
  define w0 where "w0 = fold (\<lambda>ts w. snd (add_tags e paper_id ts w)) tss0 w"
  have w': "w' = snd (add_tags e paper_id ts w0)"
    by (simp add: assms(7) tss w0_def)
  have ok0: "tables_ok (disk w0)"
    unfolding w0_def using assms(1) by (rule add_tags_calls_tables_ok)
  from add_tags_no_fault [OF nf, of paper_id ts w0] obtain tx where
    tx: "add_tags_loop e 0 paper_id ts (disk w0) = Inr tx" "disk w' = tx"
    by (auto simp: w')
  have ok: "tables_ok (disk w')"
    using add_tags_loop_tables_ok [OF tx(1) ok0] tx(2) by simp
  have all: "\<forall>t \<in> set ts. tagged paper_id t (disk w')"
    using add_tags_loop_tagged [OF tx(1)] tx(2) by simp
  from assms(6) tss have x: "x \<in> set ts" by simp
  with all have "tagged paper_id x (disk w')" by simp
  note rows = tagged_rows [OF ok this]
  from x have "ts \<noteq> []" by auto
  with add_tags_loop_bounded [OF tx(1)] tx(2)
  have bounded: "\<forall>i \<in> fst ` set (tags (disk w')). i \<le> tag_seq (disk w')"
    by simp
  from add_tags_no_fault [OF nf, of paper_id ts w'] obtain tx2 where
    tx2: "add_tags_loop e 0 paper_id ts (disk w') = Inr tx2"
      "add_tags e paper_id ts w' = (Inr (), w'\<lparr>disk := tx2\<rparr>)"
    by blast
  from add_tags_loop_noop [OF tx2(1) all] add_tags_loop_papers [OF tx2(1)]
    add_tags_loop_seq [OF tx2(1) bounded]
  have "tx2 = (disk w')\<lparr>tag_seq := tag_seq (disk w') + length ts\<rparr>"
    by simp
  with tx2(2) tss rows show ?thesis by simp
qed

theorem add_tags_idempotent_witness:
  "tables_ok (disk empty_world) \<and> fault example_env = None \<and>
   \<not> connect_fault example_env \<and> \<not> cursor_fault example_env \<and>
   list_all (\<lambda>ts. ''x'' \<in> set ts) [[''x'', ''x''], [''x'', ''x'']] \<and>
   fold (\<lambda>ts w. snd (add_tags example_env ''p1'' ts w)) [[''x'', ''x''], [''x'', ''x'']] empty_world =
     \<lparr>disk = \<lparr>papers = [], tags = [(1, ''x'')], tag_seq = 4, paper_tags = [(''p1'', 1)]\<rparr>,
      open_conns = 0\<rparr> \<and>
   add_tags example_env ''p1'' [''x'', ''x'']
     \<lparr>disk = \<lparr>papers = [], tags = [(1, ''x'')], tag_seq = 4, paper_tags = [(''p1'', 1)]\<rparr>,
      open_conns = 0\<rparr> =
     (Inr (), \<lparr>disk = \<lparr>papers = [], tags = [(1, ''x'')], tag_seq = 6, paper_tags = [(''p1'', 1)]\<rparr>,
      open_conns = 0\<rparr>)"
proof -
  let ?w1 = "\<lparr>disk = \<lparr>papers = [], tags = [(1, ''x'')], tag_seq = 2, paper_tags = [(''p1'', 1)]\<rparr>,
      open_conns = 0\<rparr>"
  let ?w2 = "\<lparr>disk = \<lparr>papers = [], tags = [(1, ''x'')], tag_seq = 4, paper_tags = [(''p1'', 1)]\<rparr>,
      open_conns = 0\<rparr>"
  let ?w' = "fold (\<lambda>ts w. snd (add_tags example_env ''p1'' ts w)) [[''x'', ''x''], [''x'', ''x'']] empty_world"
  have c1: "add_tags example_env ''p1'' [''x'', ''x''] empty_world = (Inr (), ?w1)"
    by (simp add: add_tags_def example_env_def empty_world_def step_def insert_tag_def
        select_tag_id_def insert_paper_tag_def Let_def commit_def close_def connect_def)
  have c2: "add_tags example_env ''p1'' [''x'', ''x''] ?w1 = (Inr (), ?w2)"
    by (simp add: add_tags_def example_env_def step_def insert_tag_def
        select_tag_id_def insert_paper_tag_def Let_def commit_def close_def connect_def)
  have w': "?w' = ?w2"
    by (simp only: fold.simps comp_apply id_apply c1 c2 snd_conv)
  have h: "tables_ok (disk empty_world)" "fault example_env = None"
    "\<not> connect_fault example_env" "\<not> cursor_fault example_env"
    "[[''x'', ''x''], [''x'', ''x'']] \<noteq> []"
    "\<forall>ts \<in> set [[''x'', ''x''], [''x'', ''x'']]. ''x'' \<in> set ts"
    by (simp_all add: tables_ok_def empty_world_def example_env_def)
  from add_tags_idempotent [OF h refl, of "''p1''"]
  have "add_tags example_env ''p1'' (last [[''x'', ''x''], [''x'', ''x'']]) ?w' =
       (Inr (), ?w'\<lparr>disk := (disk ?w')\<lparr>tag_seq := tag_seq (disk ?w') +
          length (last [[''x'', ''x''], [''x'', ''x'']])\<rparr>\<rparr>)"
    by blast
  then have "add_tags example_env ''p1'' [''x'', ''x''] ?w2 =
      (Inr (), \<lparr>disk = \<lparr>papers = [], tags = [(1, ''x'')], tag_seq = 6, paper_tags = [(''p1'', 1)]\<rparr>,
      open_conns = 0\<rparr>)"
    unfolding w' by simp
  with h w' show ?thesis by simp
qed

text \<open>
  Repeating a call is not without effect on the file: the second call of
  \<^verbatim>\<open>add_tags('p1', ['x', 'x'])\<close> on an empty database moves the counter of \<^verbatim>\<open>AUTOINCREMENT\<close>
  from 2 to 4.
\<close>

theorem add_tags_repeat_counterexample:
  "add_tags example_env ''p1'' [''x'', ''x''] empty_world =
     (Inr (), \<lparr>disk = \<lparr>papers = [], tags = [(1, ''x'')], tag_seq = 2, paper_tags = [(''p1'', 1)]\<rparr>,
        open_conns = 0\<rparr>) \<and>
   add_tags example_env ''p1'' [''x'', ''x'']
     \<lparr>disk = \<lparr>papers = [], tags = [(1, ''x'')], tag_seq = 2, paper_tags = [(''p1'', 1)]\<rparr>,
        open_conns = 0\<rparr> =
     (Inr (), \<lparr>disk = \<lparr>papers = [], tags = [(1, ''x'')], tag_seq = 4, paper_tags = [(''p1'', 1)]\<rparr>,
        open_conns = 0\<rparr>) \<and>
   disk (snd (add_tags example_env ''p1'' [''x'', ''x'']
     (snd (add_tags example_env ''p1'' [''x'', ''x''] empty_world)))) \<noteq>
   disk (snd (add_tags example_env ''p1'' [''x'', ''x''] empty_world))"
proof -
  let ?w1 = "\<lparr>disk = \<lparr>papers = [], tags = [(1, ''x'')], tag_seq = 2, paper_tags = [(''p1'', 1)]\<rparr>,
      open_conns = 0\<rparr>"
  let ?w2 = "\<lparr>disk = \<lparr>papers = [], tags = [(1, ''x'')], tag_seq = 4, paper_tags = [(''p1'', 1)]\<rparr>,
      open_conns = 0\<rparr>"
  have c1: "add_tags example_env ''p1'' [''x'', ''x''] empty_world = (Inr (), ?w1)"
    by (simp add: add_tags_def example_env_def empty_world_def step_def insert_tag_def
        select_tag_id_def insert_paper_tag_def Let_def commit_def close_def connect_def)
  have c2: "add_tags example_env ''p1'' [''x'', ''x''] ?w1 = (Inr (), ?w2)"
    by (simp add: add_tags_def example_env_def step_def insert_tag_def
        select_tag_id_def insert_paper_tag_def Let_def commit_def close_def connect_def)
  have "disk (snd (add_tags example_env ''p1'' [''x'', ''x'']
     (snd (add_tags example_env ''p1'' [''x'', ''x''] empty_world)))) \<noteq>
     disk (snd (add_tags example_env ''p1'' [''x'', ''x''] empty_world))"
    by (simp only: c1 c2 snd_conv) simp
  with c1 c2 show ?thesis by blast
qed

section \<open>The allow-list of update_paper\<close>

lemma map_of_set_cell:
  "map_of (set_cell c v r) k = (if k = c then map_option (\<lambda>x. v) (map_of r k) else map_of r k)"
  by (induction r) (auto simp: set_cell_def)

lemma fst_set_cell [simp]: "map fst (set_cell c v r) = map fst r"
  by (induction r) (auto simp: set_cell_def)

lemma cell_set_cell_other: "k \<noteq> c \<Longrightarrow> cell (set_cell c v r) k = cell r k"
  by (simp add: cell_def map_of_set_cell)

lemma cell_set_cell_same: "c \<in> set (map fst r) \<Longrightarrow> cell (set_cell c v r) c = v"
proof -
  assume "c \<in> set (map fst r)"
  then obtain x where "map_of r c = Some x"
    by (cases "map_of r c") (auto simp: map_of_eq_None_iff)
  then show ?thesis by (simp add: cell_def map_of_set_cell)
qed

lemma fst_apply_set [simp]: "map fst (apply_set nt as r) = map fst r"
  by (induction as arbitrary: r) (auto simp: apply_set_def)

lemma apply_set_Cons:
  "apply_set nt ((c, v) # as) r = apply_set nt as (set_cell c (affinity nt c v) r)"
  by (simp add: apply_set_def)

lemma cell_apply_set_other:
  "k \<notin> fst ` set as \<Longrightarrow> cell (apply_set nt as r) k = cell r k"
proof (induction as arbitrary: r)
  case Nil
  show ?case by (simp add: apply_set_def)
next
  case (Cons a as)
  obtain c v where a: "a = (c, v)" by (cases a)
  with Cons.prems have "k \<noteq> c" "k \<notin> fst ` set as" by auto
  with Cons.IH [of "set_cell c (affinity nt c v) r"] show ?case
    by (simp add: a apply_set_Cons cell_set_cell_other)
qed

lemma cell_apply_set_written:
  "distinct (map fst as) \<Longrightarrow> (k, x) \<in> set as \<Longrightarrow> k \<in> set (map fst r) \<Longrightarrow>
     cell (apply_set nt as r) k = affinity nt k x"
proof (induction as arbitrary: r)
  case Nil
  then show ?case by simp
next
  case (Cons a as)
  obtain c v where a: "a = (c, v)" by (cases a)
  let ?r = "set_cell c (affinity nt c v) r"
  show ?case
  proof (cases "(k, x) = (c, v)")
    case True
    with Cons.prems(1) a have "k \<notin> fst ` set as" by auto
    then have "cell (apply_set nt as ?r) k = cell ?r k"
      by (rule cell_apply_set_other)
    with True Cons.prems(3) show ?thesis
      by (simp add: a apply_set_Cons cell_set_cell_same)
  next
    case False
    from Cons.prems(1) have "distinct (map fst as)" by simp
    moreover from False Cons.prems(2) a have "(k, x) \<in> set as" by auto
    moreover from Cons.prems(3) have "k \<in> set (map fst ?r)" by simp
    ultimately have "cell (apply_set nt as ?r) k = affinity nt k x"
      by (rule Cons.IH)
    then show ?thesis by (simp add: a apply_set_Cons)
  qed
qed

text \<open>The assignments are the entries of the allow-list, in order.\<close>

lemma update_assignments_Inr:
  "update_assignments updates = Inr as \<Longrightarrow>
     list_all2 (\<lambda>(k, v) (k', v'). k' = k \<and> update_value k v = Inr v')
       (filter (\<lambda>(k, v). k \<in> set valid_fields) updates) as"
proof (induction updates arbitrary: as)
  case Nil
  then show ?case by simp
next
  case (Cons u updates)
  obtain k v where u: "u = (k, v)" by (cases u)
  show ?case
  proof (cases "k \<in> set valid_fields")
    case True
    with Cons.prems u obtain v' as' where
      "update_value k v = Inr v'" "update_assignments updates = Inr as'" "as = (k, v') # as'"
      by (auto simp: then_do_Inr_iff)
    with Cons.IH [of as'] True u show ?thesis by simp
  next
    case False
    with Cons.prems u Cons.IH [of as] show ?thesis by simp
  qed
qed

lemma update_assignments_fields:
  assumes "update_assignments updates = Inr as"
  shows "map fst as = filter (\<lambda>k. k \<in> set valid_fields) (map fst updates)"
proof -
  have "list_all2 (\<lambda>(k, v) (k', v'). k' = k \<and> update_value k v = Inr v') us as \<Longrightarrow>
      map fst as = map fst us" for us
    by (induction us as rule: list_all2_induct) auto
  from this [OF update_assignments_Inr [OF assms]] show ?thesis
    by (simp add: filter_map comp_def case_prod_unfold)
qed

lemma update_assignments_none:
  "\<forall>k \<in> fst ` set updates. k \<notin> set valid_fields \<Longrightarrow> update_assignments updates = Inr []"
  by (induction updates) auto

text \<open>Every entry of the allow-list is bound and paired with its field.\<close>

lemma assignment_bound:
  "list_all2 (\<lambda>(k, v) (k', v'). k' = k \<and> update_value k v = Inr v') us as \<Longrightarrow>
   list_all2 (\<lambda>p x. bind p = Inr x) (map snd as) vals \<Longrightarrow> (k, v) \<in> set us \<Longrightarrow>
     \<exists>v' x. update_value k v = Inr v' \<and> bind v' = Inr x \<and> (k, x) \<in> set (zip (map fst as) vals)"
proof (induction us as arbitrary: vals rule: list_all2_induct)
  case Nil
  then show ?case by simp
next
  case (Cons u us a as)
  from Cons.prems(1) obtain x xs where vals: "vals = x # xs" "bind (snd a) = Inr x"
    "list_all2 (\<lambda>p x. bind p = Inr x) (map snd as) xs"
    by (auto simp: list_all2_Cons1)
  show ?case
  proof (cases "(k, v) = u")
    case True
    with Cons.hyps(1) vals show ?thesis by (cases a) auto
  next
    case False
    with Cons.prems(2) have "(k, v) \<in> set us" by simp
    from Cons.IH [OF vals(3) this] vals(1) show ?thesis by auto
  qed
qed

lemma zip_append_same_length:
  "length xs = length ys \<Longrightarrow> zip xs (ys @ zs) = zip xs ys"
  by (induction xs ys rule: list_induct2) auto

lemma bind_all_append:
  "bind_all (ps @ [PStr s]) = Inr vals \<longleftrightarrow> (\<exists>vs. bind_all ps = Inr vs \<and> vals = vs @ [SText s])"
proof (induction ps arbitrary: vals)
  case Nil
  show ?case by auto
next
  case (Cons p ps)
  show ?case
    by (cases "bind p") (auto simp: then_do_Inr_iff Cons.IH)
qed

text \<open>What a call of update_paper has done: nothing, or the UPDATE with the bound values.\<close>

lemma update_paper_cases:
  "(fst (update_paper e paper_id updates w) \<noteq> Inr True \<and> snd (update_paper e paper_id updates w) = w) \<or>
   (\<exists>as vals. update_assignments updates = Inr as \<and>
      list_all2 (\<lambda>p x. bind p = Inr x) (map snd as) vals \<and>
      (\<forall>r \<in> set (papers (disk w)). cell r ''id'' = SText paper_id \<longrightarrow>
         not_null_ok (apply_set (numeric_text e) (zip (map fst as) vals) r)) \<and>
      update_paper e paper_id updates w =
        (Inr True, w\<lparr>disk := (disk w)\<lparr>papers :=
           map (\<lambda>r. if cell r ''id'' = SText paper_id
                      then apply_set (numeric_text e) (zip (map fst as) vals) r else r)
               (papers (disk w))\<rparr>\<rparr>))"
proof (cases "update_assignments updates")
  case (Inl err)
  then show ?thesis by (simp add: update_paper_def)
next
  case (Inr as)
  show ?thesis
  proof (cases "as = []")
    case True
    with Inr show ?thesis by (simp add: update_paper_def)
  next
    case False
    then obtain a as' where as: "as = a # as'" by (cases as) auto
    let ?stmt = "update_papers (numeric_text e) (map fst as) paper_id (disk (connect w))"
    let ?r = "then_do (execute e 0 (map snd as @ [PStr paper_id]) ?stmt) (\<lambda>tx. commit e 1 tx (connect w))"
    have up: "update_paper e paper_id updates w =
        (case ?r of Inr w2 \<Rightarrow> (Inr True, close w2)
         | Inl Sqlite3Error \<Rightarrow> (Inr False, close (connect w))
         | Inl err \<Rightarrow> (Inl err, close (connect w)))"
      using Inr as by (simp add: update_paper_def Let_def)
    show ?thesis
    proof (cases ?r)
      case (Inl err)
      with up show ?thesis by (cases err) simp_all
    next
      case r: (Inr w2)
      then obtain vals tx where
        b: "bind_all (map snd as @ [PStr paper_id]) = Inr vals" and
        s: "?stmt vals = Inr tx" and w2: "w2 = connect w\<lparr>disk := tx\<rparr>"
        by (auto simp: then_do_Inr_iff execute_def commit_def step_Inr_iff)
      from b obtain vs where vs: "bind_all (map snd as) = Inr vs" "vals = vs @ [SText paper_id]"
        by (auto simp: bind_all_append)
      then have all2: "list_all2 (\<lambda>p x. bind p = Inr x) (map snd as) vs"
        by (simp add: bind_all_Inr_iff)
      from all2 have "length (map fst as) = length vs"
        by (auto dest: list_all2_lengthD)
      then have z: "zip (map fst as) vals = zip (map fst as) vs"
        unfolding vs(2) by (rule zip_append_same_length)
      from s have "tx = (disk w)\<lparr>papers :=
           map (\<lambda>r. if cell r ''id'' = SText paper_id
                      then apply_set (numeric_text e) (zip (map fst as) vs) r else r)
               (papers (disk w))\<rparr>"
        by (auto simp: update_papers_def Let_def z split: if_splits)
      moreover from s have "\<forall>r \<in> set (papers (disk w)). cell r ''id'' = SText paper_id \<longrightarrow>
         not_null_ok (apply_set (numeric_text e) (zip (map fst as) vs) r)"
        by (auto simp: update_papers_def Let_def z split: if_splits)
      ultimately show ?thesis
        using up r w2 Inr all2 by auto
    qed
  qed
qed

text \<open>A row after the UPDATE.\<close>

lemma updated_row:
  assumes as: "update_assignments updates = Inr as"
    and all2: "list_all2 (\<lambda>p x. bind p = Inr x) (map snd as) vals"
    and r': "r' = (if cell r ''id'' = SText paper_id
                   then apply_set nt (zip (map fst as) vals) r else r)"
  shows "map fst r' = map fst r"
    and "cell r ''id'' \<noteq> SText paper_id \<Longrightarrow> r' = r"
    and "c \<notin> set valid_fields \<or> c \<notin> fst ` set updates \<Longrightarrow> cell r' c = cell r c"
    and "distinct (map fst updates) \<Longrightarrow> cell r ''id'' = SText paper_id \<Longrightarrow>
         (k, v) \<in> set updates \<Longrightarrow> k \<in> set valid_fields \<Longrightarrow> k \<in> fst ` set r \<Longrightarrow>
         \<exists>v' x. update_value k v = Inr v' \<and> bind v' = Inr x \<and> cell r' k = affinity nt k x"
proof -
  from all2 have len: "length (map fst as) = length vals"
    by (auto dest: list_all2_lengthD)
  then have fields: "map fst (zip (map fst as) vals) = map fst as"
    by (rule map_fst_zip)
  have flt: "map fst as = filter (\<lambda>k. k \<in> set valid_fields) (map fst updates)"
    using as by (rule update_assignments_fields)
  show "map fst r' = map fst r"
    by (simp add: r')
  show "r' = r" if "cell r ''id'' \<noteq> SText paper_id"
    using that by (simp add: r')
  show "cell r' c = cell r c" if "c \<notin> set valid_fields \<or> c \<notin> fst ` set updates"
  proof -
    from that have "c \<notin> set (map fst as)"
      unfolding flt by auto
    then have "c \<notin> fst ` set (zip (map fst as) vals)"
      using fields by (metis set_map)
    then show ?thesis
      by (simp add: r' cell_apply_set_other)
  qed
  show "\<exists>v' x. update_value k v = Inr v' \<and> bind v' = Inr x \<and> cell r' k = affinity nt k x"
    if d: "distinct (map fst updates)" and hit: "cell r ''id'' = SText paper_id"
      and kv: "(k, v) \<in> set updates" and valid: "k \<in> set valid_fields" and col: "k \<in> fst ` set r"
  proof -
    from kv valid have "(k, v) \<in> set (filter (\<lambda>(k, v). k \<in> set valid_fields) updates)"
      by simp
    from assignment_bound [OF update_assignments_Inr [OF as] all2 this] obtain v' x where
      x: "update_value k v = Inr v'" "bind v' = Inr x" "(k, x) \<in> set (zip (map fst as) vals)"
      by blast
    from d have "distinct (map fst as)"
      unfolding flt by (rule distinct_filter)
    then have "distinct (map fst (zip (map fst as) vals))"
      by (simp only: fields)
    moreover from col have "k \<in> set (map fst r)" by simp
    ultimately have "cell (apply_set nt (zip (map fst as) vals) r) k = affinity nt k x"
      using x(3) by (simp add: cell_apply_set_written)
    with x hit show ?thesis by (auto simp: r')
  qed
qed

text \<open>
  C4. Whatever update_paper returns or raises: the tag tables and the number of papers
  are as before; a paper with another id keeps every cell; a cell of the paper is as
  before unless its column is in the allow-list and is a key of the mapping. When the
  call returns True the cells named by the allow-listed entries hold the new values
  (the authors joined), under the column's affinity. With no allow-listed entry the
  call returns False and the world is as before.
\<close>

theorem update_paper_allow_list:
  assumes "update_paper e paper_id updates w = (res, w')"
  shows "tags (disk w') = tags (disk w) \<and> tag_seq (disk w') = tag_seq (disk w) \<and>
     paper_tags (disk w') = paper_tags (disk w) \<and>
     length (papers (disk w')) = length (papers (disk w)) \<and>
     (\<forall>i < length (papers (disk w)).
        map fst (papers (disk w') ! i) = map fst (papers (disk w) ! i) \<and>
        (cell (papers (disk w) ! i) ''id'' \<noteq> SText paper_id \<longrightarrow>
           papers (disk w') ! i = papers (disk w) ! i) \<and>
        (\<forall>c. c \<notin> set valid_fields \<or> c \<notin> fst ` set updates \<longrightarrow>
           cell (papers (disk w') ! i) c = cell (papers (disk w) ! i) c) \<and>
        (res = Inr True \<and> distinct (map fst updates) \<and>
         cell (papers (disk w) ! i) ''id'' = SText paper_id \<longrightarrow>
           (\<forall>(k, v) \<in> set updates.
              k \<in> set valid_fields \<and> k \<in> fst ` set (papers (disk w) ! i) \<longrightarrow>
              (\<exists>v' x. update_value k v = Inr v' \<and> bind v' = Inr x \<and>
                 cell (papers (disk w') ! i) k = affinity (numeric_text e) k x)))) \<and>
     ((\<forall>k \<in> fst ` set updates. k \<notin> set valid_fields) \<longrightarrow> res = Inr False \<and> w' = w)"
proof -
  have none: "res = Inr False \<and> w' = w" if "\<forall>k \<in> fst ` set updates. k \<notin> set valid_fields"
    using update_assignments_none [OF that] assms by (simp add: update_paper_def)
  from update_paper_cases [of e paper_id updates w] assms
  consider (unchanged) "res \<noteq> Inr True" "w' = w"
    | (updated) as vals where "update_assignments updates = Inr as"
        "list_all2 (\<lambda>p x. bind p = Inr x) (map snd as) vals"
        "res = Inr True"
        "w' = w\<lparr>disk := (disk w)\<lparr>papers :=
           map (\<lambda>r. if cell r ''id'' = SText paper_id
                      then apply_set (numeric_text e) (zip (map fst as) vals) r else r)
               (papers (disk w))\<rparr>\<rparr>"
    by auto
  then show ?thesis
  proof cases
    case unchanged
    with none show ?thesis by simp
  next
    case updated
    let ?f = "\<lambda>r. if cell r ''id'' = SText paper_id
                      then apply_set (numeric_text e) (zip (map fst as) vals) r else r"
    have rows: "papers (disk w') = map ?f (papers (disk w))"
      by (simp add: updated(4))
    have row: "map fst (papers (disk w') ! i) = map fst (papers (disk w) ! i) \<and>
        (cell (papers (disk w) ! i) ''id'' \<noteq> SText paper_id \<longrightarrow>
           papers (disk w') ! i = papers (disk w) ! i) \<and>
        (\<forall>c. c \<notin> set valid_fields \<or> c \<notin> fst ` set updates \<longrightarrow>
           cell (papers (disk w') ! i) c = cell (papers (disk w) ! i) c) \<and>
        (res = Inr True \<and> distinct (map fst updates) \<and>
         cell (papers (disk w) ! i) ''id'' = SText paper_id \<longrightarrow>
           (\<forall>(k, v) \<in> set updates.
              k \<in> set valid_fields \<and> k \<in> fst ` set (papers (disk w) ! i) \<longrightarrow>
              (\<exists>v' x. update_value k v = Inr v' \<and> bind v' = Inr x \<and>
                 cell (papers (disk w') ! i) k = affinity (numeric_text e) k x)))"
      if "i < length (papers (disk w))" for i
    proof -
      from that have r': "papers (disk w') ! i = ?f (papers (disk w) ! i)"
        by (simp add: rows)
      note u = updated_row [OF updated(1,2) r']
      from u(1) u(2) u(3) u(4) show ?thesis
        by (intro conjI allI impI ballI) (blast | clarify)+
    qed
    from updated(4) have "tags (disk w') = tags (disk w) \<and> tag_seq (disk w') = tag_seq (disk w) \<and>
     paper_tags (disk w') = paper_tags (disk w) \<and>
     length (papers (disk w')) = length (papers (disk w))"
      by simp
    with row none show ?thesis by blast
  qed
qed

theorem update_paper_allow_list_witness:
  "fst (update_paper example_env ''p1'' [(''title'', PStr ''New''), (''hacker_field'', PStr ''x'')]
          (snd (add_paper example_env paper_gnn empty_world))) = Inr True \<and>
   cell (papers (disk (snd (update_paper example_env ''p1''
          [(''title'', PStr ''New''), (''hacker_field'', PStr ''x'')]
          (snd (add_paper example_env paper_gnn empty_world))))) ! 0) ''title'' = SText ''New'' \<and>
   cell (papers (disk (snd (update_paper example_env ''p1''
          [(''title'', PStr ''New''), (''hacker_field'', PStr ''x'')]
          (snd (add_paper example_env paper_gnn empty_world))))) ! 0) ''source'' = SText ''arxiv'' \<and>
   update_paper example_env ''p1'' [(''bogus'', PInt 1)] (snd (add_paper example_env paper_gnn empty_world)) =
     (Inr False, snd (add_paper example_env paper_gnn empty_world))"
proof -
  let ?w1 = "\<lparr>disk = \<lparr>papers =
        [[(''id'', SText ''p1''), (''title'', SText ''Graph Neural Networks''),
          (''authors'', SText ''A,B''), (''abstract'', SNull), (''source'', SText ''arxiv''),
          (''publication_date'', SText ''2023-01-01''),
          (''access_date'', SText ''2024-01-01T00:00:00''), (''pdf_path'', SNull),
          (''bibtex_path'', SNull), (''endnote_path'', SNull), (''is_paywalled'', SInt 0),
          (''summary'', SNull), (''implications'', SNull), (''topic_category'', SNull),
          (''error_log'', SNull)]],
        tags = [], tag_seq = 0, paper_tags = []\<rparr>, open_conns = 0\<rparr>"
  let ?ups = "[(''title'', PStr ''New''), (''hacker_field'', PStr ''x'')]"
  let ?res = "fst (update_paper example_env ''p1'' ?ups ?w1)"
  let ?w2 = "snd (update_paper example_env ''p1'' ?ups ?w1)"
  have w1: "snd (add_paper example_env paper_gnn empty_world) = ?w1"
    by (simp add: eval_simps)
  have res: "?res = Inr True"
    by (simp add: update_paper_def update_value_def valid_fields_def execute_def commit_def
        step_def update_papers_def apply_set_def set_cell_def affinity_def not_null_ok_def
        not_null_columns_def cell_def Let_def example_env_def)
  have row: "cell (papers (disk ?w1) ! 0) ''id'' = SText ''p1''"
    "cell (papers (disk ?w1) ! 0) ''source'' = SText ''arxiv''"
    "''title'' \<in> fst ` set (papers (disk ?w1) ! 0)"
    by (simp_all add: cell_def)
  note t = update_paper_allow_list [of example_env "''p1''" ?ups ?w1 ?res ?w2, OF prod.collapse [symmetric]]
  from t have "\<forall>c. c \<notin> set valid_fields \<or> c \<notin> fst ` set ?ups \<longrightarrow>
           cell (papers (disk ?w2) ! 0) c = cell (papers (disk ?w1) ! 0) c"
    by simp
  then have src: "cell (papers (disk ?w2) ! 0) ''source'' = SText ''arxiv''"
    using row(2) by (simp add: valid_fields_def)
  from t have "?res = Inr True \<and> distinct (map fst ?ups) \<and>
         cell (papers (disk ?w1) ! 0) ''id'' = SText ''p1'' \<longrightarrow>
           (\<forall>(k, v) \<in> set ?ups.
              k \<in> set valid_fields \<and> k \<in> fst ` set (papers (disk ?w1) ! 0) \<longrightarrow>
              (\<exists>v' x. update_value k v = Inr v' \<and> bind v' = Inr x \<and>
                 cell (papers (disk ?w2) ! 0) k = affinity (numeric_text example_env) k x))"
    by simp
  with res row(1) have "\<forall>(k, v) \<in> set ?ups.
              k \<in> set valid_fields \<and> k \<in> fst ` set (papers (disk ?w1) ! 0) \<longrightarrow>
              (\<exists>v' x. update_value k v = Inr v' \<and> bind v' = Inr x \<and>
                 cell (papers (disk ?w2) ! 0) k = affinity (numeric_text example_env) k x)"
    by simp
  with row(3) have "\<exists>v' x. update_value ''title'' (PStr ''New'') = Inr v' \<and> bind v' = Inr x \<and>
      cell (papers (disk ?w2) ! 0) ''title'' = affinity (numeric_text example_env) ''title'' x"
    by (simp add: valid_fields_def)
  then have title: "cell (papers (disk ?w2) ! 0) ''title'' = SText ''New''"
    by (auto simp: update_value_def affinity_def)
  have "fst (update_paper example_env ''p1'' [(''bogus'', PInt 1)] ?w1) = Inr False \<and>
     snd (update_paper example_env ''p1'' [(''bogus'', PInt 1)] ?w1) = ?w1"
    using update_paper_allow_list [of example_env "''p1''" "[(''bogus'', PInt 1)]" ?w1
        "fst (update_paper example_env ''p1'' [(''bogus'', PInt 1)] ?w1)"
        "snd (update_paper example_env ''p1'' [(''bogus'', PInt 1)] ?w1)", OF prod.collapse [symmetric]]
    by (simp add: valid_fields_def)
  then have bogus: "update_paper example_env ''p1'' [(''bogus'', PInt 1)] ?w1 = (Inr False, ?w1)"
    by (metis prod.collapse)
  from res title src bogus show ?thesis
    unfolding w1 by blast
qed

section \<open>The LIKE operator\<close>

lemma like_percent [simp]: "like ''%'' s"
  by (induction s) simp_all

lemma like_percent_Nil [simp]: "like (CHR ''%'' # p) [] = like p []"
  by simp

lemma like_percent_Cons:
  "like (CHR ''%'' # p) (c # cs) = (like p (c # cs) \<or> like (CHR ''%'' # p) cs)"
  by simp

text \<open>A pattern in two parts matches the texts that split in two matching parts.\<close>

lemma like_append:
  "like (p1 @ p2) s \<longleftrightarrow> (\<exists>s1 s2. s = s1 @ s2 \<and> like p1 s1 \<and> like p2 s2)"
proof (induction p1 s rule: like.induct)
  case (1 s)
  show ?case by simp
next
  case (2 p ps)
  then show ?case by auto
next
  case (3 p ps c cs)
  show ?case
  proof (cases "p = CHR ''%''")
    case True
    have "like ((p # ps) @ p2) (c # cs) \<longleftrightarrow> like (ps @ p2) (c # cs) \<or> like ((p # ps) @ p2) cs"
      using True by simp
    also have "\<dots> \<longleftrightarrow> (\<exists>s1 s2. c # cs = s1 @ s2 \<and> like ps s1 \<and> like p2 s2) \<or>
        (\<exists>s1 s2. cs = s1 @ s2 \<and> like (p # ps) s1 \<and> like p2 s2)"
      using 3(1) [OF True] 3(2) [OF True] by simp
    also have "\<dots> \<longleftrightarrow> (\<exists>s1 s2. c # cs = s1 @ s2 \<and> like (p # ps) s1 \<and> like p2 s2)"
    proof
      assume "(\<exists>s1 s2. c # cs = s1 @ s2 \<and> like ps s1 \<and> like p2 s2) \<or>
        (\<exists>s1 s2. cs = s1 @ s2 \<and> like (p # ps) s1 \<and> like p2 s2)"
      then show "\<exists>s1 s2. c # cs = s1 @ s2 \<and> like (p # ps) s1 \<and> like p2 s2"
      proof
        assume "\<exists>s1 s2. c # cs = s1 @ s2 \<and> like ps s1 \<and> like p2 s2"
        then obtain s1 s2 where s: "c # cs = s1 @ s2" "like ps s1" "like p2 s2" by blast
        from s(2) True have "like (p # ps) s1" by (cases s1) simp_all
        with s show ?thesis by blast
      next
        assume "\<exists>s1 s2. cs = s1 @ s2 \<and> like (p # ps) s1 \<and> like p2 s2"
        then obtain s1 s2 where s: "cs = s1 @ s2" "like (p # ps) s1" "like p2 s2" by blast
        from s(2) True have "like (p # ps) (c # s1)" by simp
        with s(1,3) show ?thesis by (metis append_Cons)
      qed
    next
      assume "\<exists>s1 s2. c # cs = s1 @ s2 \<and> like (p # ps) s1 \<and> like p2 s2"
      then obtain s1 s2 where s: "c # cs = s1 @ s2" "like (p # ps) s1" "like p2 s2" by blast
      show "(\<exists>s1 s2. c # cs = s1 @ s2 \<and> like ps s1 \<and> like p2 s2) \<or>
        (\<exists>s1 s2. cs = s1 @ s2 \<and> like (p # ps) s1 \<and> like p2 s2)"
      proof (cases s1)
        case Nil
        with s True have "like ps []" by simp
        with s Nil show ?thesis by blast
      next
        case (Cons d ds)
        with s(1) have d: "d = c" "cs = ds @ s2" by simp_all
        from s(2) Cons True have "like ps (d # ds) \<or> like (p # ps) ds" by simp
        then show ?thesis
        proof
          assume "like ps (d # ds)"
          with s Cons show ?thesis by blast
        next
          assume "like (p # ps) ds"
          with d s(3) show ?thesis by blast
        qed
      qed
    qed
    finally show ?thesis .
  next
    case False
    have "like ((p # ps) @ p2) (c # cs) \<longleftrightarrow>
        (p = CHR ''_'' \<or> lower p = lower c) \<and> like (ps @ p2) cs"
      using False by simp
    also have "\<dots> \<longleftrightarrow> (p = CHR ''_'' \<or> lower p = lower c) \<and>
        (\<exists>s1 s2. cs = s1 @ s2 \<and> like ps s1 \<and> like p2 s2)"
      using 3(3) [OF False] by simp
    also have "\<dots> \<longleftrightarrow> (\<exists>s1 s2. c # cs = s1 @ s2 \<and> like (p # ps) s1 \<and> like p2 s2)"
    proof
      assume "(p = CHR ''_'' \<or> lower p = lower c) \<and>
        (\<exists>s1 s2. cs = s1 @ s2 \<and> like ps s1 \<and> like p2 s2)"
      then obtain s1 s2 where s: "p = CHR ''_'' \<or> lower p = lower c" "cs = s1 @ s2"
        "like ps s1" "like p2 s2" by blast
      with False have "like (p # ps) (c # s1)" by simp
      with s(2,4) show "\<exists>s1 s2. c # cs = s1 @ s2 \<and> like (p # ps) s1 \<and> like p2 s2"
        by (metis append_Cons)
    next
      assume "\<exists>s1 s2. c # cs = s1 @ s2 \<and> like (p # ps) s1 \<and> like p2 s2"
      then obtain s1 s2 where s: "c # cs = s1 @ s2" "like (p # ps) s1" "like p2 s2" by blast
      from s(2) False obtain ds where ds: "s1 = c # ds"
        using s(1) by (cases s1) auto
      with s False show "(p = CHR ''_'' \<or> lower p = lower c) \<and>
        (\<exists>s1 s2. cs = s1 @ s2 \<and> like ps s1 \<and> like p2 s2)"
        by auto
    qed
    finally show ?thesis .
  qed
qed

lemma like_underscore [simp]: "like ''_'' s \<longleftrightarrow> (\<exists>c. s = [c])"
  by (cases s) auto

lemma like_percent_left: "like p s \<Longrightarrow> like (CHR ''%'' # p) s"
  by (cases s) simp_all

lemma like_percent_right: "like (p @ ''%'') s \<Longrightarrow> like (p @ ''%'') (s @ t)"
proof -
  assume "like (p @ ''%'') s"
  then obtain s1 s2 where "s = s1 @ s2" "like p s1"
    by (auto simp: like_append)
  then have "s @ t = s1 @ (s2 @ t) \<and> like p s1 \<and> like ''%'' (s2 @ t)"
    by simp
  then show ?thesis
    unfolding like_append [of p "''%''"] by blast
qed

text \<open>A query without wildcards: \<^verbatim>\<open>%query%\<close> is containment up to the case of letters.\<close>

lemma like_prefix:
  "CHR ''%'' \<notin> set q \<Longrightarrow> CHR ''_'' \<notin> set q \<Longrightarrow>
     like (q @ ''%'') s \<longleftrightarrow> prefix (map lower q) (map lower s)"
proof (induction q arbitrary: s)
  case Nil
  show ?case by simp
next
  case (Cons p q)
  then have IH: "like (q @ ''%'') t \<longleftrightarrow> prefix (map lower q) (map lower t)" for t
    by simp
  from Cons.prems show ?case
    by (cases s) (auto simp: IH)
qed

lemma like_contains:
  assumes "CHR ''%'' \<notin> set q" and "CHR ''_'' \<notin> set q"
  shows "like (''%'' @ q @ ''%'') s \<longleftrightarrow> sublist (map lower q) (map lower s)"
proof (induction s)
  case Nil
  from like_prefix [OF assms, of "[]"] show ?case by simp
next
  case (Cons c cs)
  from like_prefix [OF assms, of "c # cs"] Cons show ?case
    by (simp add: sublist_Cons_right)
qed

section \<open>Wildcards in the pattern\<close>

lemma like_two_parts:
  "like (''%'' @ (q1 @ ''%'' @ q2) @ ''%'') t \<longleftrightarrow>
     (\<exists>t1 t2. t = t1 @ t2 \<and> like (''%'' @ q1 @ ''%'') t1 \<and> like (''%'' @ q2 @ ''%'') t2)"
proof
  assume "like (''%'' @ (q1 @ ''%'' @ q2) @ ''%'') t"
  then have "like ((''%'' @ q1 @ ''%'') @ (q2 @ ''%'')) t" by simp
  then obtain t1 t2 where "t = t1 @ t2" "like (''%'' @ q1 @ ''%'') t1" "like (q2 @ ''%'') t2"
    unfolding like_append [of "''%'' @ q1 @ ''%''"] by blast
  moreover from this(3) have "like (''%'' @ q2 @ ''%'') t2"
    using like_percent_left by simp
  ultimately show "\<exists>t1 t2. t = t1 @ t2 \<and> like (''%'' @ q1 @ ''%'') t1 \<and> like (''%'' @ q2 @ ''%'') t2"
    by blast
next
  assume "\<exists>t1 t2. t = t1 @ t2 \<and> like (''%'' @ q1 @ ''%'') t1 \<and> like (''%'' @ q2 @ ''%'') t2"
  then obtain t1 t2 where t: "t = t1 @ t2" "like (''%'' @ q1 @ ''%'') t1"
    "like (''%'' @ q2 @ ''%'') t2" by blast
  from t(3) obtain a b where ab: "t2 = a @ b" "like (q2 @ ''%'') b"
    unfolding like_append [of "''%''"] by blast
  from t(2) have "like ((''%'' @ q1) @ ''%'') (t1 @ a)"
    using like_percent_right [of "''%'' @ q1" t1 a] by simp
  with ab(2) have "like (((''%'' @ q1) @ ''%'') @ (q2 @ ''%'')) ((t1 @ a) @ b)"
    unfolding like_append [of "(''%'' @ q1) @ ''%''"] by blast
  with t(1) ab(1) show "like (''%'' @ (q1 @ ''%'' @ q2) @ ''%'') t" by simp
qed

lemma like_one_character:
  "like (''%'' @ (q1 @ ''_'' @ q2) @ ''%'') t \<longleftrightarrow>
     (\<exists>t1 c t2. t = t1 @ c # t2 \<and> like (''%'' @ q1) t1 \<and> like (q2 @ ''%'') t2)"
proof -
  have "like (''%'' @ (q1 @ ''_'' @ q2) @ ''%'') t \<longleftrightarrow> like ((''%'' @ q1) @ (''_'' @ (q2 @ ''%''))) t"
    by simp
  also have "\<dots> \<longleftrightarrow> (\<exists>t1 s. t = t1 @ s \<and> like (''%'' @ q1) t1 \<and> like (''_'' @ (q2 @ ''%'')) s)"
    by (rule like_append)
  also have "\<dots> \<longleftrightarrow> (\<exists>t1 s. t = t1 @ s \<and> like (''%'' @ q1) t1 \<and>
      (\<exists>s1 t2. s = s1 @ t2 \<and> like ''_'' s1 \<and> like (q2 @ ''%'') t2))"
    unfolding like_append [of "''_''"] ..
  also have "\<dots> \<longleftrightarrow> (\<exists>t1 c t2. t = t1 @ c # t2 \<and> like (''%'' @ q1) t1 \<and> like (q2 @ ''%'') t2)"
  proof (intro iffI; elim exE conjE)
    fix t1 s s1 t2
    assume a: "t = t1 @ s" "like (''%'' @ q1) t1" "s = s1 @ t2" "like ''_'' s1" "like (q2 @ ''%'') t2"
    from a(4) obtain c where "s1 = [c]" by auto
    with a show "\<exists>t1 c t2. t = t1 @ c # t2 \<and> like (''%'' @ q1) t1 \<and> like (q2 @ ''%'') t2"
      by (intro exI [of _ t1] exI [of _ c] exI [of _ t2]) simp
  next
    fix t1 c t2
    assume a: "t = t1 @ c # t2" "like (''%'' @ q1) t1" "like (q2 @ ''%'') t2"
    then show "\<exists>t1 s. t = t1 @ s \<and> like (''%'' @ q1) t1 \<and>
      (\<exists>s1 t2. s = s1 @ t2 \<and> like ''_'' s1 \<and> like (q2 @ ''%'') t2)"
      by (intro exI [of _ t1] exI [of _ "c # t2"] conjI exI [of _ "[c]"] exI [of _ t2]) simp_all
  qed
  finally show ?thesis .
qed

lemma like_a_later_b:
  assumes "lower a = CHR ''a''" and "lower b = CHR ''b''"
  shows "like ''%a%b%'' (u @ a # v @ b # w)"
proof -
  have la: "lower (CHR ''a'') = CHR ''a''" and lb: "lower (CHR ''b'') = CHR ''b''"
    by (simp_all add: lower_def)
  have "sublist (map lower ''a'') (map lower (u @ [a]))"
    using assms(1) by (simp add: la)
  then have 1: "like (''%'' @ ''a'' @ ''%'') (u @ [a])"
    by (subst like_contains) simp_all
  have "sublist [CHR ''b''] (map lower v @ [CHR ''b''] @ map lower w)"
    by (rule sublist_appendI)
  then have "sublist (map lower ''b'') (map lower (v @ b # w))"
    using assms(2) by (simp add: lb)
  then have 2: "like (''%'' @ ''b'' @ ''%'') (v @ b # w)"
    by (subst like_contains) simp_all
  have "like (''%'' @ (''a'' @ ''%'' @ ''b'') @ ''%'') ((u @ [a]) @ (v @ b # w))"
    unfolding like_two_parts using 1 2 by blast
  then show ?thesis by simp
qed

text \<open>The pattern \<^verbatim>\<open>%a%b%\<close> matches the texts with an a and, anywhere later, a b.\<close>

lemma sublist_one_char:
  "sublist [x] (map lower t) \<longleftrightarrow> (\<exists>u c v. t = u @ c # v \<and> lower c = x)"
proof
  assume "sublist [x] (map lower t)"
  then obtain ps ss where "map lower t = ps @ [x] @ ss"
    by (auto simp: sublist_def)
  then have "x \<in> set (map lower t)" by simp
  then obtain c where "c \<in> set t" "lower c = x" by auto
  then show "\<exists>u c v. t = u @ c # v \<and> lower c = x"
    by (metis split_list)
next
  assume "\<exists>u c v. t = u @ c # v \<and> lower c = x"
  then obtain u c v where "t = u @ c # v" "lower c = x" by blast
  then have "map lower t = map lower u @ [x] @ map lower v" by simp
  then show "sublist [x] (map lower t)"
    unfolding sublist_def by blast
qed

lemma like_a_then_b:
  "like ''%a%b%'' t \<longleftrightarrow>
     (\<exists>u a v b z. t = u @ a # v @ b # z \<and> lower a = CHR ''a'' \<and> lower b = CHR ''b'')"
proof
  assume "like ''%a%b%'' t"
  then have "like (''%'' @ (''a'' @ ''%'' @ ''b'') @ ''%'') t" by simp
  then obtain t1 t2 where t: "t = t1 @ t2" "like (''%'' @ ''a'' @ ''%'') t1"
    "like (''%'' @ ''b'' @ ''%'') t2"
    unfolding like_two_parts by blast
  from t(2) have "sublist (map lower ''a'') (map lower t1)"
    by (subst (asm) like_contains) simp_all
  then have "sublist [CHR ''a''] (map lower t1)"
    by (simp add: lower_def)
  then obtain u a v1 where 1: "t1 = u @ a # v1" "lower a = CHR ''a''"
    unfolding sublist_one_char by blast
  from t(3) have "sublist (map lower ''b'') (map lower t2)"
    by (subst (asm) like_contains) simp_all
  then have "sublist [CHR ''b''] (map lower t2)"
    by (simp add: lower_def)
  then obtain v2 b z where 2: "t2 = v2 @ b # z" "lower b = CHR ''b''"
    unfolding sublist_one_char by blast
  from t(1) 1 2 have "t = u @ a # (v1 @ v2) @ b # z \<and> lower a = CHR ''a'' \<and> lower b = CHR ''b''"
    by simp
  then show "\<exists>u a v b z. t = u @ a # v @ b # z \<and> lower a = CHR ''a'' \<and> lower b = CHR ''b''"
    by blast
next
  assume "\<exists>u a v b z. t = u @ a # v @ b # z \<and> lower a = CHR ''a'' \<and> lower b = CHR ''b''"
  then show "like ''%a%b%'' t"
    using like_a_later_b by blast
qed

section \<open>What search_papers selects and returns\<close>

text \<open>The part of the pattern that the engine reads.\<close>

lemma c_string_no_nul: "CHR 0x00 \<notin> set s \<Longrightarrow> c_string s = s"
  by (simp add: c_string_def takeWhile_eq_all_conv) metis

lemma c_string_pattern:
  "c_string (''%'' @ query @ ''%'') =
     (if CHR 0x00 \<in> set query then ''%'' @ c_string query else ''%'' @ query @ ''%'')"
proof (cases "CHR 0x00 \<in> set query")
  case True
  then have "takeWhile (\<lambda>c. c \<noteq> CHR 0x00) (query @ ''%'') = takeWhile (\<lambda>c. c \<noteq> CHR 0x00) query"
    by (intro takeWhile_append1 [of "CHR 0x00"]) simp_all
  with True show ?thesis
    by (simp add: c_string_def)
next
  case False
  then have "CHR 0x00 \<notin> set (''%'' @ query @ ''%'')" by simp
  from c_string_no_nul [OF this] False show ?thesis by simp
qed

text \<open>The WHERE clause in two-valued terms.\<close>

lemma sql_or_True: "sql_or a b = Some True \<longleftrightarrow> a = Some True \<or> b = Some True"
  by (cases "(a, b)" rule: sql_or.cases) auto

lemma sql_and_True: "sql_and a b = Some True \<longleftrightarrow> a = Some True \<and> b = Some True"
  by (cases "(a, b)" rule: sql_and.cases) auto

lemma where_clause_True:
  "where_clause query source from_date r = Some True \<longleftrightarrow>
     (sql_like (cell r ''title'') (''%'' @ query @ ''%'') = Some True \<or>
      sql_like (cell r ''abstract'') (''%'' @ query @ ''%'') = Some True) \<and>
     (case given source of None \<Rightarrow> True | Some s \<Rightarrow> sql_eq (cell r ''source'') s = Some True) \<and>
     (case given from_date of None \<Rightarrow> True
      | Some d \<Rightarrow> sql_ge (cell r ''publication_date'') d = Some True)"
  by (cases source; cases from_date)
    (auto simp: where_clause_def given_def Let_def sql_or_True sql_and_True)

lemma sql_like_True: "sql_like v p = Some True \<longleftrightarrow> text_sat (like (c_string p)) v"
  by (cases v) (simp_all add: text_sat_def)

lemma sql_eq_True: "sql_eq v s = Some True \<longleftrightarrow> v = SText s"
  by (cases v) auto

lemma sql_ge_True:
  "sql_ge v d = Some True \<longleftrightarrow> (case v of SText p \<Rightarrow> str_le d p | _ \<Rightarrow> False)"
  by (cases v) auto

lemma where_clause_selected:
  "where_clause query source from_date r = Some True \<longleftrightarrow>
     selected_by (like (c_string (''%'' @ query @ ''%''))) (given source) (given from_date) r"
  unfolding where_clause_True selected_by_def sql_like_True sql_eq_True sql_ge_True ..

lemma select_papers_selected:
  "select_papers query source from_date s =
     (if scanned source from_date s \<noteq> [] \<and> \<not> like_pattern_ok (''%'' @ query @ ''%'')
      then Inl Sqlite3Error
      else Inr (filter (selected_by (like (c_string (''%'' @ query @ ''%''))) (given source)
                  (given from_date)) (papers s)))"
  by (simp add: select_papers_def where_clause_selected)

text \<open>The empty query without filters selects every row that has a title.\<close>

lemma like_percent_percent: "like ''%%'' s"
  using like_percent_left [of "''%''" s] by simp

lemma select_papers_all:
  assumes "list_all row_ok (papers s)"
  shows "select_papers [] None None s = Inr (papers s)"
proof -
  have ok: "like_pattern_ok (''%'' @ [] @ ''%'')"
    by (simp add: like_pattern_ok_def utf8_length_def)
  have "where_clause [] None None r = Some True" if "r \<in> set (papers s)" for r
  proof -
    from that assms have "cell r ''title'' \<noteq> SNull"
      by (auto simp: list_all_iff row_ok_def not_null_ok_def not_null_columns_def)
    then have "sql_like (cell r ''title'') ''%%'' = Some True"
      by (cases "cell r ''title''") (simp_all add: c_string_def like_percent_percent)
    then show ?thesis
      by (simp add: where_clause_def Let_def)
  qed
  then have "filter (\<lambda>r. where_clause [] None None r = Some True) (papers s) = papers s"
    by (simp add: filter_id_conv)
  with ok show ?thesis
    by (simp add: select_papers_def)
qed

lemma row_ok_text_cells:
  assumes "row_ok r"
  shows "\<not> is_int (cell r ''title'')" and "\<not> is_int (cell r ''abstract'')"
    and "\<not> is_int (cell r ''id'')" and "\<exists>a. cell r ''authors'' = SText a"
    and "\<exists>t. cell r ''title'' = SText t"
proof -
  from assms have i: "\<forall>c \<in> set columns. c \<noteq> ''is_paywalled'' \<longrightarrow> \<not> is_int (cell r c)"
    and n: "\<forall>c \<in> set not_null_columns. cell r c \<noteq> SNull"
    by (simp_all add: row_ok_def not_null_ok_def)
  from i have t: "\<not> is_int (cell r ''title'')" and b: "\<not> is_int (cell r ''abstract'')"
    and d: "\<not> is_int (cell r ''id'')" and a: "\<not> is_int (cell r ''authors'')"
    by (simp_all add: columns_def)
  from n have nn: "cell r ''authors'' \<noteq> SNull" "cell r ''title'' \<noteq> SNull"
    by (simp_all add: not_null_columns_def)
  show "\<not> is_int (cell r ''title'')" by (rule t)
  show "\<not> is_int (cell r ''abstract'')" by (rule b)
  show "\<not> is_int (cell r ''id'')" by (rule d)
  from a nn(1) show "\<exists>a. cell r ''authors'' = SText a"
    by (cases "cell r ''authors''") (simp_all add: is_int_def)
  from t nn(2) show "\<exists>t. cell r ''title'' = SText t"
    by (cases "cell r ''title''") (simp_all add: is_int_def)
qed

lemma map_of_row_dict:
  "map_of (zip (map fst r) (map (f \<circ> snd) r)) c = map_option f (map_of r c)"
  by (induction r) auto

lemma row_dict_getitem:
  assumes "map fst r = columns" and "c \<in> set columns"
  shows "py_getitem (row_dict columns r) c = Inr (sql_to_py (cell r c))"
proof -
  from assms have "c \<in> fst ` set r" by (metis set_map)
  then obtain v where "map_of r c = Some v"
    by (cases "map_of r c") (auto simp: map_of_eq_None_iff)
  then show ?thesis
    unfolding row_dict_def assms(1) [symmetric] py_getitem_def map_of_row_dict
    by (simp add: cell_def)
qed

text \<open>The loop on a single row, with the description of the papers query.\<close>

lemma search_loop_one_row:
  assumes "row_ok r" and "fault e = None"
  shows "search_loop e k columns s [r] = Inr [paper_record s r]"
proof -
  from assms(1) have cols: "map fst r = columns" by (simp add: row_ok_def)
  from row_ok_text_cells(4) [OF assms(1)] obtain a where a: "cell r ''authors'' = SText a" ..
  have au: "py_getitem (row_dict columns r) ''authors'' = Inr (PStr a)"
    using row_dict_getitem [OF cols, of "''authors''"] a by (simp add: columns_def)
  have id: "py_getitem (row_dict columns r) ''id'' = Inr (sql_to_py (cell r ''id''))"
    using row_dict_getitem [OF cols, of "''id''"] by (simp add: columns_def)
  have tg: "select_tags_of (sql_to_py (cell r ''id'')) s =
      Inr (case cell r ''id'' of SText pid \<Rightarrow> select_tags pid s | _ \<Rightarrow> [])"
    using row_ok_text_cells(3) [OF assms(1)] by (cases "cell r ''id''") (simp_all add: is_int_def)
  show ?thesis
    by (simp add: Let_def au id tg assms(2) paper_record_def a)
qed

text \<open>The second row of a result finds the description of the tags query.\<close>

lemma search_loop_second_row:
  "search_loop e k [''name''] s (r # rows) = Inl KeyError"
proof -
  have "py_getitem (row_dict [''name''] r) ''authors'' = Inl KeyError"
    by (cases r) (simp_all add: row_dict_def py_getitem_def)
  then show ?thesis by (simp add: Let_def)
qed

lemma search_loop_two_rows:
  assumes "row_ok r1" and "fault e = None"
  shows "search_loop e k columns s (r1 # r2 # rows) = Inl KeyError"
proof -
  from assms(1) have cols: "map fst r1 = columns" by (simp add: row_ok_def)
  from row_ok_text_cells(4) [OF assms(1)] obtain a where a: "cell r1 ''authors'' = SText a" ..
  have au: "py_getitem (row_dict columns r1) ''authors'' = Inr (PStr a)"
    using row_dict_getitem [OF cols, of "''authors''"] a by (simp add: columns_def)
  have id: "py_getitem (row_dict columns r1) ''id'' = Inr (sql_to_py (cell r1 ''id''))"
    using row_dict_getitem [OF cols, of "''id''"] by (simp add: columns_def)
  have tg: "\<exists>names. select_tags_of (sql_to_py (cell r1 ''id'')) s = Inr names"
    using row_ok_text_cells(3) [OF assms(1)] by (cases "cell r1 ''id''") (simp_all add: is_int_def)
  then obtain names where names: "select_tags_of (sql_to_py (cell r1 ''id'')) s = Inr names" ..
  show ?thesis
    by (subst search_loop.simps(2))
      (simp add: Let_def au id names assms(2) search_loop_second_row del: search_loop.simps)
qed

text \<open>What a call of search_papers gives, by the number of rows the SELECT has found.\<close>

lemma search_papers_result:
  assumes "fault e = None" and "list_all row_ok (papers (disk w))"
    and "select_papers query source from_date (disk w) = Inr rows"
  shows "search_papers e query source from_date w =
     (case rows of
        [] \<Rightarrow> (Inr [], w)
      | [row] \<Rightarrow> (Inr [paper_record (disk w) row], w)
      | _ \<Rightarrow> (Inl KeyError, connect w))"
proof -
  from assms(3) have "set rows \<subseteq> set (papers (disk w))"
    by (auto simp: select_papers_def split: if_splits)
  with assms(2) have ok: "\<forall>r \<in> set rows. row_ok r"
    by (auto simp: list_all_iff)
  have sel: "select_papers query source from_date (disk (connect w)) = Inr rows"
    using assms(3) by (simp add: connect_def)
  have dc: "disk (connect w) = disk w"
    by (simp add: connect_def)
  show ?thesis
  proof (cases rows)
    case Nil
    with assms(1) sel show ?thesis
      by (simp add: search_papers_def Let_def)
  next
    case (Cons r1 rest)
    with ok have r1: "row_ok r1" by simp
    show ?thesis
    proof (cases rest)
      case Nil
      from search_loop_one_row [OF r1 assms(1), of 1 "disk w"] Cons Nil assms(1) sel show ?thesis
        by (simp add: search_papers_def Let_def dc del: search_loop.simps)
    next
      case (Cons r2 rest2)
      from search_loop_two_rows [OF r1 assms(1), of 1 "disk w" r2 rest2] Cons \<open>rows = r1 # rest\<close>
        assms(1) sel
      show ?thesis
        by (simp add: search_papers_def Let_def dc del: search_loop.simps)
    qed
  qed
qed

text \<open>The loop never gives two records.\<close>

lemma search_loop_length:
  "search_loop e k description s rows = Inr found \<Longrightarrow> length found = length rows"
proof (induction rows arbitrary: k description found)
  case Nil
  then show ?case by simp
next
  case (Cons r rows)
  from Cons.prems obtain found' where
    "search_loop e (Suc k) [''name''] s rows = Inr found'" "length found = Suc (length found')"
    by (auto simp: then_do_Inr_iff Let_def)
  with Cons.IH show ?case by simp
qed

lemma search_loop_at_most_one:
  assumes "search_loop e k description s rows = Inr found"
  shows "length found \<le> 1"
proof (cases rows)
  case Nil
  with assms show ?thesis by simp
next
  case (Cons r rest)
  with assms obtain found' where
    rest: "search_loop e (Suc k) [''name''] s rest = Inr found'" and
    len: "length found = Suc (length found')"
    by (auto simp: then_do_Inr_iff Let_def)
  from rest search_loop_second_row have "rest = []"
    by (cases rest) auto
  with rest len show ?thesis by simp
qed

lemma search_papers_at_most_one:
  assumes "fst (search_papers e query source from_date w) = Inr found"
  shows "length found \<le> 1"
proof -
  from assms obtain rows where
    "search_loop e 1 columns (disk (connect w)) rows = Inr found"
    by (auto simp: search_papers_def Let_def then_do_Inr_iff split: sum.splits)
  then show ?thesis by (rule search_loop_at_most_one)
qed

text \<open>The example databases, row by row.\<close>

lemma example_worlds:
  "axxb_world = \<lparr>disk = \<lparr>papers =
        [[(''id'', SText ''p2''), (''title'', SText ''axxb''),
          (''authors'', SText []), (''abstract'', SNull), (''source'', SText ''acm''),
          (''publication_date'', SText ''2023-06-01''),
          (''access_date'', SText ''2024-01-01T00:00:00''), (''pdf_path'', SNull),
          (''bibtex_path'', SNull), (''endnote_path'', SNull), (''is_paywalled'', SInt 0),
          (''summary'', SNull), (''implications'', SNull), (''topic_category'', SNull),
          (''error_log'', SNull)]],
        tags = [], tag_seq = 0, paper_tags = []\<rparr>, open_conns = 0\<rparr>"
  "two_papers_world = \<lparr>disk = \<lparr>papers =
        [[(''id'', SText ''p1''), (''title'', SText ''Graph Neural Networks''),
          (''authors'', SText ''A,B''), (''abstract'', SNull), (''source'', SText ''arxiv''),
          (''publication_date'', SText ''2023-01-01''),
          (''access_date'', SText ''2024-01-01T00:00:00''), (''pdf_path'', SNull),
          (''bibtex_path'', SNull), (''endnote_path'', SNull), (''is_paywalled'', SInt 0),
          (''summary'', SNull), (''implications'', SNull), (''topic_category'', SNull),
          (''error_log'', SNull)],
         [(''id'', SText ''p2''), (''title'', SText ''axxb''),
          (''authors'', SText []), (''abstract'', SNull), (''source'', SText ''acm''),
          (''publication_date'', SText ''2023-06-01''),
          (''access_date'', SText ''2024-01-01T00:00:00''), (''pdf_path'', SNull),
          (''bibtex_path'', SNull), (''endnote_path'', SNull), (''is_paywalled'', SInt 0),
          (''summary'', SNull), (''implications'', SNull), (''topic_category'', SNull),
          (''error_log'', SNull)]],
        tags = [], tag_seq = 0, paper_tags = []\<rparr>, open_conns = 0\<rparr>"
proof -
  show "axxb_world = \<lparr>disk = \<lparr>papers =
        [[(''id'', SText ''p2''), (''title'', SText ''axxb''),
          (''authors'', SText []), (''abstract'', SNull), (''source'', SText ''acm''),
          (''publication_date'', SText ''2023-06-01''),
          (''access_date'', SText ''2024-01-01T00:00:00''), (''pdf_path'', SNull),
          (''bibtex_path'', SNull), (''endnote_path'', SNull), (''is_paywalled'', SInt 0),
          (''summary'', SNull), (''implications'', SNull), (''topic_category'', SNull),
          (''error_log'', SNull)]],
        tags = [], tag_seq = 0, paper_tags = []\<rparr>, open_conns = 0\<rparr>"
    by (simp add: axxb_world_def eval_simps)
  have "snd (add_paper example_env paper_gnn empty_world) = \<lparr>disk = \<lparr>papers =
        [[(''id'', SText ''p1''), (''title'', SText ''Graph Neural Networks''),
          (''authors'', SText ''A,B''), (''abstract'', SNull), (''source'', SText ''arxiv''),
          (''publication_date'', SText ''2023-01-01''),
          (''access_date'', SText ''2024-01-01T00:00:00''), (''pdf_path'', SNull),
          (''bibtex_path'', SNull), (''endnote_path'', SNull), (''is_paywalled'', SInt 0),
          (''summary'', SNull), (''implications'', SNull), (''topic_category'', SNull),
          (''error_log'', SNull)]],
        tags = [], tag_seq = 0, paper_tags = []\<rparr>, open_conns = 0\<rparr>"
    by (simp add: eval_simps)
  then show "two_papers_world = \<lparr>disk = \<lparr>papers =
        [[(''id'', SText ''p1''), (''title'', SText ''Graph Neural Networks''),
          (''authors'', SText ''A,B''), (''abstract'', SNull), (''source'', SText ''arxiv''),
          (''publication_date'', SText ''2023-01-01''),
          (''access_date'', SText ''2024-01-01T00:00:00''), (''pdf_path'', SNull),
          (''bibtex_path'', SNull), (''endnote_path'', SNull), (''is_paywalled'', SInt 0),
          (''summary'', SNull), (''implications'', SNull), (''topic_category'', SNull),
          (''error_log'', SNull)],
         [(''id'', SText ''p2''), (''title'', SText ''axxb''),
          (''authors'', SText []), (''abstract'', SNull), (''source'', SText ''acm''),
          (''publication_date'', SText ''2023-06-01''),
          (''access_date'', SText ''2024-01-01T00:00:00''), (''pdf_path'', SNull),
          (''bibtex_path'', SNull), (''endnote_path'', SNull), (''is_paywalled'', SInt 0),
          (''summary'', SNull), (''implications'', SNull), (''topic_category'', SNull),
          (''error_log'', SNull)]],
        tags = [], tag_seq = 0, paper_tags = []\<rparr>, open_conns = 0\<rparr>"
    unfolding two_papers_world_def by (simp add: eval_simps)
qed

lemma example_nul_world:
  "nul_world = \<lparr>disk = \<lparr>papers =
        [[(''id'', SText ''p3''), (''title'', SText [CHR ''a'', CHR 0x00, CHR ''b'']),
          (''authors'', SText []), (''abstract'', SNull), (''source'', SText ''acm''),
          (''publication_date'', SText ''2023-06-01''),
          (''access_date'', SText ''2024-01-01T00:00:00''), (''pdf_path'', SNull),
          (''bibtex_path'', SNull), (''endnote_path'', SNull), (''is_paywalled'', SInt 0),
          (''summary'', SNull), (''implications'', SNull), (''topic_category'', SNull),
          (''error_log'', SNull)]],
        tags = [], tag_seq = 0, paper_tags = []\<rparr>, open_conns = 0\<rparr>"
  by (simp add: nul_world_def paper_nul_def eval_simps)

lemma example_rows_ok:
  "list_all row_ok (papers (disk axxb_world))" "list_all row_ok (papers (disk two_papers_world))"
  "list_all row_ok (papers (disk nul_world))"
  by (simp_all add: example_worlds example_nul_world row_ok_def columns_def not_null_ok_def
      not_null_columns_def cell_def is_int_def)

lemma example_patterns_ok:
  "like_pattern_ok (''%'' @ ''a%b'' @ ''%'')"
  "like_pattern_ok (''%'' @ [CHR ''b'', CHR 0x00, CHR ''%'', CHR ''z''] @ ''%'')"
  "like_pattern_ok (''%'' @ [] @ ''%'')"
  "like_pattern_ok (''%'' @ ''a'' @ ''%'')"
  "\<not> like_pattern_ok (''%'' @ replicate 49999 (CHR ''%'') @ ''%'')"
  by (simp_all add: like_pattern_ok_def utf8_length_def)

text \<open>
  C8. The query goes into the pattern as it is, and the engine reads the pattern, the
  title and the abstract up to their first NUL character. The WHERE clause is true of
  exactly the rows whose title or abstract matches the pattern as \<open>like\<close> reads it, and
  that pass the filters; the SELECT gives these rows when the pattern has at most 50000
  bytes, and search_papers then gives the record of the row when there is one such row.
  A \<^verbatim>\<open>%\<close> in the query cuts the match in two: the text matches when it splits into a part
  matching what stands before the \<^verbatim>\<open>%\<close> and a part matching what stands after it. A \<^verbatim>\<open>_\<close>
  stands for any one character. So the query \<^verbatim>\<open>a%b\<close> selects exactly the papers whose
  title or abstract has, before its first NUL, an a and, anywhere later, a b.
\<close>

theorem search_wildcards:
  "(where_clause query source from_date r = Some True \<longleftrightarrow>
      selected_by (like (c_string (''%'' @ query @ ''%''))) (given source) (given from_date) r) \<and>
   c_string (''%'' @ query @ ''%'') =
      (if CHR 0x00 \<in> set query then ''%'' @ c_string query else ''%'' @ query @ ''%'') \<and>
   (like_pattern_ok (''%'' @ query @ ''%'') \<longrightarrow>
      select_papers query source from_date s =
        Inr (filter (selected_by (like (c_string (''%'' @ query @ ''%''))) (given source)
               (given from_date)) (papers s))) \<and>
   (fault e = None \<and> like_pattern_ok (''%'' @ query @ ''%'') \<and>
    list_all row_ok (papers (disk w)) \<longrightarrow>
      fst (search_papers e query source from_date w) =
        (case filter (selected_by (like (c_string (''%'' @ query @ ''%''))) (given source)
               (given from_date)) (papers (disk w)) of
           [] \<Rightarrow> Inr []
         | [row] \<Rightarrow> Inr [paper_record (disk w) row]
         | _ \<Rightarrow> Inl KeyError)) \<and>
   (like (''%'' @ (q1 @ ''%'' @ q2) @ ''%'') t \<longleftrightarrow>
      (\<exists>t1 t2. t = t1 @ t2 \<and> like (''%'' @ q1 @ ''%'') t1 \<and> like (''%'' @ q2 @ ''%'') t2)) \<and>
   (like (''%'' @ (q1 @ ''_'' @ q2) @ ''%'') t \<longleftrightarrow>
      (\<exists>t1 c t2. t = t1 @ c # t2 \<and> like (''%'' @ q1) t1 \<and> like (q2 @ ''%'') t2)) \<and>
   (where_clause ''a%b'' None None r = Some True \<longleftrightarrow>
      text_sat (\<lambda>t. \<exists>u a v b z. t = u @ a # v @ b # z \<and> lower a = CHR ''a'' \<and> lower b = CHR ''b'')
        (cell r ''title'') \<or>
      text_sat (\<lambda>t. \<exists>u a v b z. t = u @ a # v @ b # z \<and> lower a = CHR ''a'' \<and> lower b = CHR ''b'')
        (cell r ''abstract''))"
proof -
  let ?sel = "selected_by (like (c_string (''%'' @ query @ ''%''))) (given source) (given from_date)"
  have 1: "where_clause query source from_date r = Some True \<longleftrightarrow> ?sel r"
    by (rule where_clause_selected)
  have 2: "c_string (''%'' @ query @ ''%'') =
      (if CHR 0x00 \<in> set query then ''%'' @ c_string query else ''%'' @ query @ ''%'')"
    by (rule c_string_pattern)
  have 3: "select_papers query source from_date s = Inr (filter ?sel (papers s))"
    if "like_pattern_ok (''%'' @ query @ ''%'')"
    using that by (simp add: select_papers_selected)
  have 4: "fst (search_papers e query source from_date w) =
        (case filter ?sel (papers (disk w)) of
           [] \<Rightarrow> Inr []
         | [row] \<Rightarrow> Inr [paper_record (disk w) row]
         | _ \<Rightarrow> Inl KeyError)"
    if "fault e = None" "like_pattern_ok (''%'' @ query @ ''%'')" "list_all row_ok (papers (disk w))"
  proof -
    have "select_papers query source from_date (disk w) = Inr (filter ?sel (papers (disk w)))"
      using that(2) by (simp add: select_papers_selected)
    from search_papers_result [OF that(1,3) this] show ?thesis
      by (simp split: list.splits)
  qed
  have p: "c_string ''%a%b%'' = ''%a%b%''"
    by (simp add: c_string_def)
  have 7: "where_clause ''a%b'' None None r = Some True \<longleftrightarrow>
      text_sat (\<lambda>t. \<exists>u a v b z. t = u @ a # v @ b # z \<and> lower a = CHR ''a'' \<and> lower b = CHR ''b'')
        (cell r ''title'') \<or>
      text_sat (\<lambda>t. \<exists>u a v b z. t = u @ a # v @ b # z \<and> lower a = CHR ''a'' \<and> lower b = CHR ''b'')
        (cell r ''abstract'')"
    unfolding where_clause_selected
    by (cases "cell r ''title''"; cases "cell r ''abstract''")
      (simp_all add: selected_by_def given_def p text_sat_def like_a_then_b)
  from 1 2 3 4 7 like_two_parts [of q1 q2 t] like_one_character [of q1 q2 t] show ?thesis
    by blast
qed

theorem search_wildcards_witness:
  "fault example_env = None \<and> like_pattern_ok (''%'' @ ''a%b'' @ ''%'') \<and>
   list_all row_ok (papers (disk two_papers_world)) \<and>
   cell (hd (papers (disk two_papers_world))) ''title'' = SText ''Graph Neural Networks'' \<and>
   cell (last (papers (disk two_papers_world))) ''title'' = SText ''axxb'' \<and>
   \<not> contains_ci ''a%b'' ''axxb'' \<and>
   select_papers ''a%b'' None None (disk two_papers_world) =
     Inr [last (papers (disk two_papers_world))] \<and>
   fst (search_papers example_env ''a%b'' None None two_papers_world) =
     Inr [paper_record (disk two_papers_world) (last (papers (disk two_papers_world)))]"
proof -
  let ?sel = "selected_by (like (c_string (''%'' @ ''a%b'' @ ''%''))) (given None) (given None)"
  have h: "fault example_env = None" "like_pattern_ok (''%'' @ ''a%b'' @ ''%'')"
    "list_all row_ok (papers (disk two_papers_world))"
    using example_patterns_ok(1) example_rows_ok(2) by (simp_all add: example_env_def)
  have t: "cell (hd (papers (disk two_papers_world))) ''title'' = SText ''Graph Neural Networks''"
    "cell (last (papers (disk two_papers_world))) ''title'' = SText ''axxb''"
    by (simp_all add: example_worlds cell_def)
  have n: "\<not> contains_ci ''a%b'' ''axxb''"
    by (simp add: contains_ci_def lower_def sublist_code)
  have f: "filter ?sel (papers (disk two_papers_world)) = [last (papers (disk two_papers_world))]"
    by (simp add: example_worlds selected_by_def text_sat_def c_string_def given_def cell_def
        lower_def)
  from search_wildcards [of "''a%b''" None None _ "disk two_papers_world" example_env
      two_papers_world] h
  have "select_papers ''a%b'' None None (disk two_papers_world) =
      Inr (filter ?sel (papers (disk two_papers_world)))"
    and "fst (search_papers example_env ''a%b'' None None two_papers_world) =
        (case filter ?sel (papers (disk two_papers_world)) of
           [] \<Rightarrow> Inr []
         | [row] \<Rightarrow> Inr [paper_record (disk two_papers_world) row]
         | _ \<Rightarrow> Inl KeyError)"
    by blast+
  then have "select_papers ''a%b'' None None (disk two_papers_world) =
      Inr [last (papers (disk two_papers_world))]"
    and "fst (search_papers example_env ''a%b'' None None two_papers_world) =
      Inr [paper_record (disk two_papers_world) (last (papers (disk two_papers_world)))]"
    unfolding f by simp_all
  with h t n show ?thesis by blast
qed

text \<open>
  A title with an a and a later b is not matched by the query \<^verbatim>\<open>a%b\<close> when a NUL stands
  between the two; the query \<^verbatim>\<open>b\<close>, NUL, \<^verbatim>\<open>%z\<close> finds the title \<^verbatim>\<open>axxb\<close>, which has no z,
  because the pattern ends at the NUL; and a query of 49999 characters \<^verbatim>\<open>%\<close> is refused
  by the engine.
\<close>

theorem search_wildcards_counterexample:
  "cell (hd (papers (disk nul_world))) ''title'' = SText [CHR ''a'', CHR 0x00, CHR ''b''] \<and>
   search_papers example_env ''a%b'' None None nul_world = (Inr [], nul_world) \<and>
   cell (hd (papers (disk axxb_world))) ''title'' = SText ''axxb'' \<and>
   search_papers example_env [CHR ''b'', CHR 0x00, CHR ''%'', CHR ''z''] None None axxb_world =
     (Inr [paper_record (disk axxb_world) (hd (papers (disk axxb_world)))], axxb_world) \<and>
   search_papers example_env (replicate 49999 (CHR ''%'')) None None axxb_world =
     (Inl Sqlite3Error, connect axxb_world)"
proof -
  have e: "fault example_env = None"
    by (simp add: example_env_def)
  have t: "cell (hd (papers (disk nul_world))) ''title'' = SText [CHR ''a'', CHR 0x00, CHR ''b'']"
    "cell (hd (papers (disk axxb_world))) ''title'' = SText ''axxb''"
    by (simp_all add: example_worlds example_nul_world cell_def)
  have "select_papers ''a%b'' None None (disk nul_world) = Inr []"
    unfolding select_papers_selected using example_patterns_ok(1)
    by (simp add: example_nul_world selected_by_def text_sat_def c_string_def
        given_def cell_def lower_def)
  from search_papers_result [OF e example_rows_ok(3) this]
  have 1: "search_papers example_env ''a%b'' None None nul_world = (Inr [], nul_world)"
    by simp
  have "select_papers [CHR ''b'', CHR 0x00, CHR ''%'', CHR ''z''] None None (disk axxb_world) =
      Inr [hd (papers (disk axxb_world))]"
    unfolding select_papers_selected using example_patterns_ok(2)
    by (simp add: example_worlds selected_by_def text_sat_def c_string_def
        given_def cell_def lower_def)
  from search_papers_result [OF e example_rows_ok(1) this]
  have 2: "search_papers example_env [CHR ''b'', CHR 0x00, CHR ''%'', CHR ''z''] None None axxb_world =
     (Inr [paper_record (disk axxb_world) (hd (papers (disk axxb_world)))], axxb_world)"
    by simp
  have "scanned None None (disk axxb_world) \<noteq> []"
    by (simp add: scanned_def given_def example_worlds)
  then have "select_papers (replicate 49999 (CHR ''%'')) None None (disk axxb_world) = Inl Sqlite3Error"
    using example_patterns_ok(5) by (simp add: select_papers_def)
  then have 3: "search_papers example_env (replicate 49999 (CHR ''%'')) None None axxb_world =
     (Inl Sqlite3Error, connect axxb_world)"
    using e by (simp add: search_papers_def Let_def connect_def step_def)
  from t 1 2 3 show ?thesis by blast
qed

section \<open>The second row of a search\<close>

text \<open>
  C3. search_papers does not return the papers that its WHERE clause selects as soon as
  there are two of them. The loop reads the column names from \<^verbatim>\<open>c.description\<close> at every
  turn, and at the second turn the cursor has run the tags query of the first row: the
  record of the second row has the only key \<^verbatim>\<open>name\<close>, and \<^verbatim>\<open>paper_dict['authors']\<close> raises
  KeyError, with the connection left open. So with the empty query and no filter, two
  or more stored papers are not returned but end the call in a KeyError; the same holds
  of every search whose SELECT finds two rows or more; and no call of search_papers
  ever returns more than one paper.
\<close>

theorem search_papers_second_row_KeyError:
  "(fault e = None \<and> list_all row_ok (papers (disk w)) \<and> 2 \<le> length (papers (disk w)) \<longrightarrow>
      search_papers e [] None None w = (Inl KeyError, connect w)) \<and>
   (fault e = None \<and> list_all row_ok (papers (disk w)) \<and>
    select_papers query source from_date (disk w) = Inr (r1 # r2 # rows) \<longrightarrow>
      search_papers e query source from_date w = (Inl KeyError, connect w)) \<and>
   (fst (search_papers e query source from_date w) = Inr found \<longrightarrow> length found \<le> 1)"
proof -
  have 1: "search_papers e [] None None w = (Inl KeyError, connect w)"
    if "fault e = None" "list_all row_ok (papers (disk w))" "2 \<le> length (papers (disk w))"
  proof -
    from that(3) obtain p1 p2 ps where "papers (disk w) = p1 # p2 # ps"
      by (cases "papers (disk w)"; cases "tl (papers (disk w))") auto
    with select_papers_all [OF that(2)]
    have "select_papers [] None None (disk w) = Inr (p1 # p2 # ps)" by simp
    from search_papers_result [OF that(1,2) this] show ?thesis by simp
  qed
  have 2: "search_papers e query source from_date w = (Inl KeyError, connect w)"
    if "fault e = None" "list_all row_ok (papers (disk w))"
      "select_papers query source from_date (disk w) = Inr (r1 # r2 # rows)"
    using search_papers_result [OF that] by simp
  have 3: "length found \<le> 1" if "fst (search_papers e query source from_date w) = Inr found"
    using that by (rule search_papers_at_most_one)
  from 1 2 3 show ?thesis by blast
qed

theorem search_papers_second_row_KeyError_witness:
  "fault example_env = None \<and> list_all row_ok (papers (disk two_papers_world)) \<and>
   length (papers (disk two_papers_world)) = 2 \<and>
   search_papers example_env [] None None two_papers_world =
     (Inl KeyError, connect two_papers_world) \<and>
   select_papers ''a'' None None (disk two_papers_world) = Inr (papers (disk two_papers_world)) \<and>
   search_papers example_env ''a'' None None two_papers_world =
     (Inl KeyError, connect two_papers_world) \<and>
   fst (search_papers example_env [] None None axxb_world) =
     Inr [paper_record (disk axxb_world) (hd (papers (disk axxb_world)))] \<and>
   length [paper_record (disk axxb_world) (hd (papers (disk axxb_world)))] \<le> 1"
proof -
  have h: "fault example_env = None" "list_all row_ok (papers (disk two_papers_world))"
    "length (papers (disk two_papers_world)) = 2"
    using example_rows_ok(2) by (simp_all add: example_env_def example_worlds)
  have s: "select_papers ''a'' None None (disk two_papers_world) = Inr (papers (disk two_papers_world))"
    unfolding select_papers_selected using example_patterns_ok(4)
    by (simp add: example_worlds selected_by_def text_sat_def c_string_def
        given_def cell_def lower_def)
  have two: "\<exists>r1 r2. papers (disk two_papers_world) = [r1, r2]"
    by (simp add: example_worlds)
  then obtain r1 r2 where rows: "papers (disk two_papers_world) = [r1, r2]" by blast
  from select_papers_all [OF example_rows_ok(1)]
  have "select_papers [] None None (disk axxb_world) = Inr [hd (papers (disk axxb_world))]"
    by (simp add: example_worlds)
  from search_papers_result [OF h(1) example_rows_ok(1) this]
  have one: "fst (search_papers example_env [] None None axxb_world) =
     Inr [paper_record (disk axxb_world) (hd (papers (disk axxb_world)))]"
    by simp
  from search_papers_second_row_KeyError [of example_env two_papers_world "''a''" None None r1 r2 "[]"]
    h s rows
  have a: "search_papers example_env [] None None two_papers_world =
      (Inl KeyError, connect two_papers_world)"
    and b: "search_papers example_env ''a'' None None two_papers_world =
      (Inl KeyError, connect two_papers_world)"
    by simp_all
  from search_papers_second_row_KeyError [of example_env axxb_world "[]" None None _ _ _
      "[paper_record (disk axxb_world) (hd (papers (disk axxb_world)))]"] one
  have c: "length [paper_record (disk axxb_world) (hd (papers (disk axxb_world)))] \<le> 1"
    by blast
  from h s a b one c show ?thesis by blast
qed

section \<open>The constraints are kept by every operation\<close>

text \<open>
  The theorems on search_papers and add_tags take the stored rows to be as the schema
  keeps them (\<open>row_ok\<close>, \<open>tables_ok\<close>). The empty database is so, and every operation
  leaves the database so.
\<close>

lemma text_affinity_not_int [simp]: "\<not> is_int (text_affinity v)"
  by (cases v) (simp_all add: is_int_def)

lemma new_row_ok:
  assumes "length vals = 14" and "not_null_ok (new_row nt vals)"
  shows "row_ok (new_row nt vals)"
proof -
  from assms(1) obtain v1 v2 v3 v4 v5 v6 v7 v8 v9 v10 v11 v12 v13 v14 where
    vals: "vals = [v1, v2, v3, v4, v5, v6, v7, v8, v9, v10, v11, v12, v13, v14]"
    by (auto simp: length_Suc_conv numeral_eq_Suc)
  have "map fst (new_row nt vals) = columns"
    by (simp add: vals new_row_def insert_columns_def columns_def)
  moreover have "\<forall>c \<in> set columns. c \<noteq> ''is_paywalled'' \<longrightarrow> \<not> is_int (cell (new_row nt vals) c)"
    by (simp add: vals new_row_def insert_columns_def columns_def cell_def affinity_def)
      (simp add: is_int_def)
  ultimately show ?thesis
    using assms(2) by (simp add: row_ok_def)
qed

lemma add_paper_rows_ok:
  assumes "list_all row_ok (papers (disk w))"
  shows "list_all row_ok (papers (disk (snd (add_paper e paper w))))"
proof -
  from add_paper_cases [of e paper w] show ?thesis
  proof
    assume t: "add_paper e paper w = (Inr True, snd (add_paper e paper w))"
    from add_paper_True [OF t] obtain params vals where
      p: "paper_params (now e) paper = Inr params" "bind_all params = Inr vals"
      "not_null_ok (new_row (numeric_text e) vals)"
      "snd (add_paper e paper w) =
         w\<lparr>disk := (disk w)\<lparr>papers := papers (disk w) @ [new_row (numeric_text e) vals]\<rparr>\<rparr>"
      by blast
    from paper_params_Inr [OF p(1)] have "length params = 14" by auto
    with p(2) have "length vals = 14"
      by (auto simp: bind_all_Inr_iff dest: list_all2_lengthD)
    from new_row_ok [OF this p(3)] assms p(4) show ?thesis by simp
  next
    assume "fst (add_paper e paper w) \<noteq> Inr True \<and> snd (add_paper e paper w) = w"
    with assms show ?thesis by simp
  qed
qed

lemma cell_set_cell_cases:
  "cell (set_cell k v r) c = cell r c \<or> (c = k \<and> cell (set_cell k v r) c = v)"
  by (cases "map_of r c") (auto simp: cell_def map_of_set_cell)

lemma cell_apply_set_cases:
  "cell (apply_set nt as r) c = cell r c \<or> (\<exists>x. cell (apply_set nt as r) c = affinity nt c x)"
proof (induction as arbitrary: r)
  case Nil
  show ?case by (simp add: apply_set_def)
next
  case (Cons a as)
  obtain k v where a: "a = (k, v)" by (cases a)
  from Cons.IH [of "set_cell k (affinity nt k v) r"]
    cell_set_cell_cases [of k "affinity nt k v" r c]
  show ?case
    by (auto simp: a apply_set_Cons)
qed

lemma apply_set_row_ok:
  assumes "row_ok r" and "not_null_ok (apply_set nt as r)"
  shows "row_ok (apply_set nt as r)"
proof -
  have "\<not> is_int (cell (apply_set nt as r) c)" if "c \<in> set columns" "c \<noteq> ''is_paywalled''" for c
  proof -
    from assms(1) that have "\<not> is_int (cell r c)" by (simp add: row_ok_def)
    with cell_apply_set_cases [of nt as r c] that(2) show ?thesis
      by (auto simp: affinity_def)
  qed
  with assms show ?thesis by (simp add: row_ok_def)
qed

lemma update_paper_rows_ok:
  assumes "list_all row_ok (papers (disk w))"
  shows "list_all row_ok (papers (disk (snd (update_paper e paper_id updates w))))"
proof -
  from update_paper_cases [of e paper_id updates w] show ?thesis
  proof (elim disjE exE conjE)
    assume "snd (update_paper e paper_id updates w) = w"
    with assms show ?thesis by simp
  next
    fix as vals
    assume nn: "\<forall>r \<in> set (papers (disk w)). cell r ''id'' = SText paper_id \<longrightarrow>
         not_null_ok (apply_set (numeric_text e) (zip (map fst as) vals) r)"
      and u: "update_paper e paper_id updates w =
        (Inr True, w\<lparr>disk := (disk w)\<lparr>papers :=
           map (\<lambda>r. if cell r ''id'' = SText paper_id
                      then apply_set (numeric_text e) (zip (map fst as) vals) r else r)
               (papers (disk w))\<rparr>\<rparr>)"
    from assms nn show ?thesis
      by (auto simp: u list_all_iff intro: apply_set_row_ok)
  qed
qed

lemma add_tags_keeps_constraints:
  assumes "list_all row_ok (papers (disk w))" and "tables_ok (disk w)"
  shows "list_all row_ok (papers (disk (snd (add_tags e paper_id ts w))))"
    and "tables_ok (disk (snd (add_tags e paper_id ts w)))"
  using assms add_tags_papers [of e paper_id ts w] add_tags_tables_ok [of w e paper_id ts]
  by simp_all

lemma constraints_kept:
  assumes "list_all row_ok (papers (disk w)) \<and> tables_ok (disk w)"
  shows "list_all row_ok (papers (disk (snd (add_paper e paper w)))) \<and>
       tables_ok (disk (snd (add_paper e paper w)))"
    and "list_all row_ok (papers (disk (snd (update_paper e paper_id updates w)))) \<and>
       tables_ok (disk (snd (update_paper e paper_id updates w)))"
    and "list_all row_ok (papers (disk (snd (add_tags e paper_id ts w)))) \<and>
       tables_ok (disk (snd (add_tags e paper_id ts w)))"
    and "disk (snd (get_paper e paper_id w)) = disk w"
    and "disk (snd (search_papers e query source from_date w)) = disk w"
proof -
  from assms have r: "list_all row_ok (papers (disk w))" and t: "tables_ok (disk w)"
    by simp_all
  have "tables_ok (disk (snd (add_paper e paper w)))"
  proof -
    from add_paper_cases [of e paper w] show ?thesis
    proof
      assume a: "add_paper e paper w = (Inr True, snd (add_paper e paper w))"
      from add_paper_True [OF a] t show ?thesis
        by (auto simp: tables_ok_def)
    next
      assume "fst (add_paper e paper w) \<noteq> Inr True \<and> snd (add_paper e paper w) = w"
      with t show ?thesis by simp
    qed
  qed
  with add_paper_rows_ok [OF r]
  show "list_all row_ok (papers (disk (snd (add_paper e paper w)))) \<and>
       tables_ok (disk (snd (add_paper e paper w)))" ..
  have "tables_ok (disk (snd (update_paper e paper_id updates w)))"
    using update_paper_cases [of e paper_id updates w] t
    by (auto simp: tables_ok_def)
  with update_paper_rows_ok [OF r]
  show "list_all row_ok (papers (disk (snd (update_paper e paper_id updates w)))) \<and>
       tables_ok (disk (snd (update_paper e paper_id updates w)))" ..
  from add_tags_keeps_constraints [OF r t]
  show "list_all row_ok (papers (disk (snd (add_tags e paper_id ts w)))) \<and>
       tables_ok (disk (snd (add_tags e paper_id ts w)))" ..
  show "disk (snd (get_paper e paper_id w)) = disk w"
    by (rule get_paper_disk)
  show "disk (snd (search_papers e query source from_date w)) = disk w"
    by (rule search_papers_disk)
qed

lemma empty_world_constraints:
  "list_all row_ok (papers (disk empty_world)) \<and> tables_ok (disk empty_world)"
  by (simp add: empty_world_def tables_ok_def)

end
